theory Spec2Isabelle
  imports Complex_Main
begin

section \<open>Errors and the random source\<close>

text \<open>
  The Python exceptions the modelled code can raise.  \<open>ValueError\<close> is raised by
  \<open>range\<close> with a zero step, \<open>IndexError\<close> by \<open>random.choice\<close> on an empty
  sequence and by list indexing out of range, \<open>ZeroDivisionError\<close> by \<open>/\<close> and
  \<open>//\<close> with a zero divisor.
\<close>

datatype py_error = ValueError | IndexError | ZeroDivisionError

text \<open>
  The random source is an infinite supply of raw draws.  \<open>random.choice(seq)\<close> returns
  \<open>seq[j]\<close> for a drawn index \<open>j < len(seq)\<close> and raises \<open>IndexError\<close> on an empty
  sequence; here \<open>j\<close> is the next raw draw reduced modulo the length, so that every
  index can be drawn, and the supply is advanced by one.
\<close>

type_synonym rng = "nat \<Rightarrow> nat"

definition random_choice :: "rng \<Rightarrow> 'a list \<Rightarrow> py_error + ('a \<times> rng)" where
  "random_choice rnd xs =
     (if xs = [] then Inl IndexError
      else Inr (xs ! (rnd 0 mod length xs), \<lambda>k. rnd (Suc k)))"

section \<open>Level generation\<close>

text \<open>An entry of the level: the dict \<open>{'time': beat, 'column': column}\<close>.\<close>

record scheduled =
  time :: real
  column :: int

text \<open>
  \<open>range(0, stop, step)\<close> for \<open>stop = len(beat_times)\<close>: a zero step raises
  \<open>ValueError\<close>, a negative step gives the empty range (the stop is never below 0),
  a positive step gives \<open>0, step, 2*step, ...\<close> below \<open>stop\<close>.
\<close>

definition py_range :: "nat \<Rightarrow> int \<Rightarrow> py_error + nat list" where
  "py_range stop step =
     (if step = 0 then Inl ValueError
      else if step < 0 then Inr []
      else Inr (map (\<lambda>k. k * nat step) [0..<(stop + nat step - 1) div nat step]))"

text \<open>\<open>range(num_columns)\<close>: the columns \<open>0 .. num_columns - 1\<close>, empty when \<open>num_columns \<le> 0\<close>.\<close>

definition range_columns :: "int \<Rightarrow> int list" where
  "range_columns num_columns = [0..num_columns - 1]"

text \<open>
  The body of the \<open>for i in range(0, len(beat_times), beat_skip)\<close> loop of
  \<open>generate_level\<close>, run over the indices still to visit.  \<open>beat_times[i]\<close> and
  \<open>level[-1]\<close> raise \<open>IndexError\<close> out of range.
\<close>

fun level_loop :: "rng \<Rightarrow> real list \<Rightarrow> int \<Rightarrow> nat list \<Rightarrow> scheduled list
    \<Rightarrow> py_error + scheduled list" where
  "level_loop rnd beat_times num_columns [] level = Inr level"
| "level_loop rnd beat_times num_columns (i # rest) level =
     (if i \<ge> length beat_times then Inl IndexError
      else let beat = beat_times ! i in
        if i > 0 \<and> level = [] then Inl IndexError
        else let possible_columns =
                   (if i > 0
                    then filter (\<lambda>c. c \<noteq> column (last level)) (range_columns num_columns)
                    else range_columns num_columns)
             in case random_choice rnd possible_columns of
                  Inl e \<Rightarrow> Inl e
                | Inr (col, rnd') \<Rightarrow>
                    level_loop rnd' beat_times num_columns rest
                      (level @ [\<lparr>time = beat, column = col\<rparr>]))"

definition generate_level :: "rng \<Rightarrow> real list \<Rightarrow> int \<Rightarrow> int \<Rightarrow> py_error + scheduled list" where
  "generate_level rnd beat_times num_columns beat_skip =
     (case py_range (length beat_times) beat_skip of
        Inl e \<Rightarrow> Inl e
      | Inr indices \<Rightarrow> level_loop rnd beat_times num_columns indices [])"

section \<open>Session start\<close>

text \<open>
  The head of one pass of \<open>run_piano_tiles_clone\<close>, up to the call of
  \<open>main_game_loop\<close>.  \<open>load_mp3\<close> gives the audio or \<open>None\<close>; \<open>extract_beats\<close> gives a
  tempo (or \<open>None\<close>) and the beat times; \<open>start_screen\<close> returns \<open>True\<close> on a click of the
  start button and leaves the process on a window-close event.  The level is generated
  with \<open>num_columns=4\<close>.
\<close>

datatype start_result = StartClicked | StartWindowClosed

datatype session_start =
    SessionReturn
  | SessionExit
  | SessionRaised py_error
  | EnterGameLoop "scheduled list"

definition start_session :: "rng \<Rightarrow> bool \<Rightarrow> real option \<times> real list \<Rightarrow> int \<Rightarrow> start_result
    \<Rightarrow> session_start" where
  "start_session rnd loaded beats beat_skip started =
     (if \<not> loaded then SessionReturn
      else case beats of
        (None, beat_times) \<Rightarrow> SessionReturn
      | (Some tempo, beat_times) \<Rightarrow>
          (case generate_level rnd beat_times 4 beat_skip of
             Inl e \<Rightarrow> SessionRaised e
           | Inr level \<Rightarrow>
               (case started of
                  StartWindowClosed \<Rightarrow> SessionExit
                | StartClicked \<Rightarrow> EnterGameLoop level)))"

section \<open>Tiles\<close>

text \<open>
  The class \<open>Tile\<close>.  Positions and speeds are Python floats, modelled by the real
  numbers they denote; the integer attributes stay integers.
\<close>

record tile =
  tile_column :: int
  tile_spawn_time :: real
  tile_speed :: real
  tile_width :: int
  tile_height :: int
  tile_screen_height :: int
  tile_num_columns :: int
  tile_x :: int
  tile_y :: real
  tile_hit :: bool

definition Tile_init :: "int \<Rightarrow> real \<Rightarrow> real \<Rightarrow> int \<Rightarrow> int \<Rightarrow> int \<Rightarrow> int \<Rightarrow> tile" where
  "Tile_init col spawn speed width height sheight ncols =
     \<lparr>tile_column = col, tile_spawn_time = spawn, tile_speed = speed, tile_width = width,
      tile_height = height, tile_screen_height = sheight, tile_num_columns = ncols,
      tile_x = col * width, tile_y = - real_of_int height, tile_hit = False\<rparr>"

definition Tile_update :: "tile \<Rightarrow> real \<Rightarrow> tile" where
  "Tile_update t delta_time = t\<lparr>tile_y := tile_y t + tile_speed t * delta_time\<rparr>"

section \<open>Animations\<close>

text \<open>
  The animation dicts.  A circle carries \<open>x\<close>, \<open>y\<close>, \<open>radius\<close>, \<open>color\<close> and \<open>alpha\<close>; a
  milestone carries its threshold (the text is the threshold followed by \<open>Points!\<close>),
  \<open>x\<close>, \<open>y\<close>, \<open>color\<close>, \<open>alpha\<close>, \<open>duration\<close> and \<open>start_time\<close>.  Fonts and rendered
  surfaces belong to the renderer and are left out.
\<close>

type_synonym color = "int \<times> int \<times> int"

datatype animation =
    Circle int real real color real
  | MilestoneText int int int color real real real

text \<open>
  One pass of \<open>update_animations\<close> over one animation: \<open>None\<close> when the pass removes it
  from the list.  A removal concerns the animation just visited: an earlier animation
  still in the list is alive, so it differs from the dead one in radius, alpha or start
  time.
\<close>

fun animation_step :: "real \<Rightarrow> real \<Rightarrow> animation \<Rightarrow> animation option" where
  "animation_step delta_time now (Circle ax ay radius col alpha) =
     (let radius' = radius - 200 * delta_time;
          alpha' = alpha - 255 * delta_time
      in if radius' \<le> 0 \<or> alpha' \<le> 0 then None
         else Some (Circle ax ay radius' col alpha'))"
| "animation_step delta_time now (MilestoneText m ax ay col alpha duration start) =
     (if now - start \<ge> duration then None
      else Some (MilestoneText m ax ay col alpha duration start))"

definition update_animations :: "animation list \<Rightarrow> real \<Rightarrow> real \<Rightarrow> animation list" where
  "update_animations anims delta_time now = List.map_filter (animation_step delta_time now) anims"

section \<open>Input\<close>

text \<open>The pygame key codes of the four lane keys, and the dict \<open>key_to_column\<close>.\<close>

definition K_q :: int where "K_q = 113"
definition K_w :: int where "K_w = 119"
definition K_e :: int where "K_e = 101"
definition K_r :: int where "K_r = 114"

definition key_to_column :: "int \<rightharpoonup> int" where
  "key_to_column = [K_q \<mapsto> 0, K_w \<mapsto> 1, K_e \<mapsto> 2, K_r \<mapsto> 3]"

text \<open>
  \<open>handle_tile_tap\<close> for a key-down event with the given key.  The mutable arguments
  \<open>tiles\<close>, \<open>score\<close> and \<open>animations\<close> are returned updated.  The scan visits a copy of
  the list in order and stops at the first tile of the pressed column inside the hit
  zone (the test \<open>tile_in_hit_zone\<close>); \<open>tiles.remove\<close> then takes the first equal tile out of the list, which is the tile
  found.  The \<open>else\<close> branch of the loop divides by \<open>num_columns\<close>.  Sounds are not
  modelled.
\<close>

definition tile_in_hit_zone :: "int \<Rightarrow> int \<Rightarrow> int \<Rightarrow> tile \<Rightarrow> bool" where
  "tile_in_hit_zone pressed_column hit_zone_start hit_zone_end t \<longleftrightarrow>
     tile_column t = pressed_column \<and>
     real_of_int hit_zone_start \<le> tile_y t \<and> tile_y t \<le> real_of_int hit_zone_end"

definition handle_tile_tap :: "int \<Rightarrow> tile list \<Rightarrow> int \<Rightarrow> int \<Rightarrow> int \<Rightarrow> int \<Rightarrow> int
    \<Rightarrow> animation list \<Rightarrow> py_error + (tile list \<times> int \<times> animation list)" where
  "handle_tile_tap key ts ncols swidth sheight theight sc anims =
     (case key_to_column key of
        None \<Rightarrow> Inr (ts, sc, anims)
      | Some pressed_column \<Rightarrow>
          let hit_zone_y = sheight - theight;
              hit_zone_buffer = 300;
              hit_zone_start = hit_zone_y - hit_zone_buffer;
              hit_zone_end = hit_zone_y + hit_zone_buffer
          in case find (tile_in_hit_zone pressed_column hit_zone_start hit_zone_end) ts of
               Some t \<Rightarrow>
                 Inr (remove1 t ts, sc + 1,
                      anims @ [Circle (tile_x t + tile_width t div 2)
                                 (tile_y t + real_of_int (tile_height t div 2))
                                 30 (0, 0, 255) 255])
             | None \<Rightarrow>
                 if ncols = 0 then Inl ZeroDivisionError
                 else Inr (ts, sc - 1,
                           anims @ [Circle (pressed_column * (swidth div ncols) + (swidth div ncols) div 2)
                                      (real_of_int (sheight - theight))
                                      30 (255, 0, 0) 255]))"

section \<open>The game loop\<close>

text \<open>The parameters of \<open>main_game_loop\<close> and the values \<open>run_piano_tiles_clone\<close> passes.\<close>

record settings =
  screen_width :: int
  screen_height :: int
  num_columns :: int
  hit_time :: real

definition default_settings :: settings where
  "default_settings = \<lparr>screen_width = 800, screen_height = 600, num_columns = 4, hit_time = 2\<rparr>"

text \<open>The mutable locals of \<open>main_game_loop\<close>.\<close>

record game =
  tiles :: "tile list"
  animations :: "animation list"
  current_tile_index :: nat
  score :: int
  misses :: int
  achieved_milestones :: "int list"
  running :: bool

definition main_tile_width :: "settings \<Rightarrow> int" where
  "main_tile_width cfg = screen_width cfg div num_columns cfg"

definition main_tile_height :: int where
  "main_tile_height = 100"

definition main_tile_speed :: "settings \<Rightarrow> real" where
  "main_tile_speed cfg = real_of_int (screen_height cfg) / hit_time cfg"

definition max_misses :: int where
  "max_misses = 5"

definition MILESTONES :: "int list" where
  "MILESTONES = [100, 200, 300, 400, 500]"

text \<open>
  The set-up before the loop: \<open>screen_width // num_columns\<close> and
  \<open>screen_height / hit_time\<close> raise on a zero divisor.
\<close>

definition init_game :: "settings \<Rightarrow> py_error + game" where
  "init_game cfg =
     (if num_columns cfg = 0 then Inl ZeroDivisionError
      else if hit_time cfg = 0 then Inl ZeroDivisionError
      else Inr \<lparr>tiles = [], animations = [], current_tile_index = 0, score = 0, misses = 0,
                achieved_milestones = [], running = True\<rparr>)"

text \<open>
  What one iteration of the loop reads from its collaborators: the elapsed time
  \<open>time.time() - start_time\<close>, the events of \<open>pygame.event.get()\<close>, the milliseconds of
  \<open>clock.get_time()\<close>, the clock value read when a milestone animation is created, the
  clock value read by \<open>update_animations\<close>, whether the music is still playing, and
  what the game-over screen does if it is shown.
\<close>

datatype event = QUIT | KEYDOWN int | OtherEvent

datatype screen_result = Restart | Quit | WindowClosed

record frame_input =
  current_time :: real
  events :: "event list"
  clock_ms :: int
  milestone_clock :: "int \<Rightarrow> real"
  animation_clock :: real
  music_busy :: bool
  game_over_result :: screen_result

text \<open>The event loop of one frame.\<close>

fun handle_events :: "settings \<Rightarrow> event list \<Rightarrow> game \<Rightarrow> py_error + game" where
  "handle_events cfg [] g = Inr g"
| "handle_events cfg (QUIT # evs) g = handle_events cfg evs (g\<lparr>running := False\<rparr>)"
| "handle_events cfg (KEYDOWN key # evs) g =
     (case handle_tile_tap key (tiles g) (num_columns cfg) (screen_width cfg) (screen_height cfg)
             main_tile_height (score g) (animations g) of
        Inl e \<Rightarrow> Inl e
      | Inr (ts, sc, anims) \<Rightarrow>
          handle_events cfg evs (g\<lparr>tiles := ts, score := sc, animations := anims\<rparr>))"
| "handle_events cfg (OtherEvent # evs) g = handle_events cfg evs g"

text \<open>The tile created for an entry of the level, and the \<open>while\<close> loop that creates the tiles that are due.\<close>

definition new_tile :: "settings \<Rightarrow> scheduled \<Rightarrow> tile" where
  "new_tile cfg entry =
     Tile_init (column entry) (time entry) (main_tile_speed cfg) (main_tile_width cfg)
       main_tile_height (screen_height cfg) (num_columns cfg)"

function spawn_tiles :: "settings \<Rightarrow> scheduled list \<Rightarrow> real \<Rightarrow> game \<Rightarrow> game" where
  "spawn_tiles cfg level now g =
     (if current_tile_index g < length level \<and> time (level ! current_tile_index g) \<le> now
      then spawn_tiles cfg level now
             (g\<lparr>tiles := tiles g @ [new_tile cfg (level ! current_tile_index g)],
                current_tile_index := current_tile_index g + 1\<rparr>)
      else g)"
  by pat_completeness auto
termination
  by (relation "measure (\<lambda>(cfg, level, now, g). length level - current_tile_index g)") auto

declare spawn_tiles.simps [simp del]

text \<open>
  The loop over a copy of \<open>tiles\<close> that removes the tiles below the screen.  The flag
  tells that \<open>misses\<close> has reached \<open>max_misses\<close>, where the loop is left for the game-over
  screen.
\<close>

fun detect_missed :: "settings \<Rightarrow> tile list \<Rightarrow> game \<Rightarrow> game \<times> bool" where
  "detect_missed cfg [] g = (g, False)"
| "detect_missed cfg (t # rest) g =
     (if tile_y t > real_of_int (screen_height cfg)
      then let g' = g\<lparr>tiles := remove1 t (tiles g),
                       misses := misses g + 1,
                       animations := animations g @
                         [Circle (tile_x t + tile_width t div 2)
                            (tile_y t + real_of_int (tile_height t div 2))
                            30 (255, 0, 0) 255]\<rparr>
           in if misses g' \<ge> max_misses then (g', True) else detect_missed cfg rest g'
      else detect_missed cfg rest g)"

text \<open>The loop over \<open>MILESTONES\<close>.\<close>

fun check_milestones :: "settings \<Rightarrow> (int \<Rightarrow> real) \<Rightarrow> int list \<Rightarrow> game \<Rightarrow> game" where
  "check_milestones cfg clock [] g = g"
| "check_milestones cfg clock (milestone # rest) g =
     (if score g \<ge> milestone \<and> milestone \<notin> set (achieved_milestones g)
      then check_milestones cfg clock rest
             (g\<lparr>achieved_milestones := achieved_milestones g @ [milestone],
                animations := animations g @
                  [MilestoneText milestone (screen_width cfg div 2) (screen_height cfg div 2)
                     (255, 215, 0) 255 2 (clock milestone)]\<rparr>)
      else check_milestones cfg clock rest g)"

text \<open>
  One iteration of the loop.  It either goes on, raises, or shows the game-over screen,
  for too many misses or for the end of the song, and leaves \<open>main_game_loop\<close>.
\<close>

datatype reason = MaxMisses | SongEnded

datatype loop_exit = ReturnRestart | ReturnNone | SysExit

datatype frame_result =
    Continue game
  | Raised py_error
  | Terminal reason loop_exit game

definition exit_after_misses :: "screen_result \<Rightarrow> loop_exit" where
  "exit_after_misses r = (case r of Restart \<Rightarrow> ReturnRestart | Quit \<Rightarrow> SysExit | WindowClosed \<Rightarrow> SysExit)"

definition exit_after_song :: "screen_result \<Rightarrow> loop_exit" where
  "exit_after_song r = (case r of Restart \<Rightarrow> ReturnRestart | Quit \<Rightarrow> ReturnNone | WindowClosed \<Rightarrow> SysExit)"

definition update_tiles :: "real \<Rightarrow> game \<Rightarrow> game" where
  "update_tiles delta_time g = g\<lparr>tiles := map (\<lambda>t. Tile_update t delta_time) (tiles g)\<rparr>"

definition frame :: "settings \<Rightarrow> scheduled list \<Rightarrow> frame_input \<Rightarrow> game \<Rightarrow> frame_result" where
  "frame cfg level inp g =
     (case handle_events cfg (events inp) g of
        Inl e \<Rightarrow> Raised e
      | Inr g1 \<Rightarrow>
          let g2 = spawn_tiles cfg level (current_time inp) g1;
              delta_time = real_of_int (clock_ms inp) / 1000;
              g3 = update_tiles delta_time g2
          in case detect_missed cfg (tiles g3) g3 of
               (g4, True) \<Rightarrow> Terminal MaxMisses (exit_after_misses (game_over_result inp)) g4
             | (g4, False) \<Rightarrow>
                 let g5 = check_milestones cfg (milestone_clock inp) MILESTONES g4;
                     g6 = g5\<lparr>animations :=
                               update_animations (animations g5) delta_time (animation_clock inp)\<rparr>
                 in if \<not> music_busy inp \<and> tiles g6 = []
                    then Terminal SongEnded (exit_after_song (game_over_result inp)) g6
                    else Continue g6)"

text \<open>
  The loop \<open>while running\<close>, run on the inputs of the successive frames.  When the
  inputs are used up and the loop has not ended, the result is the state reached.
\<close>

datatype loop_result =
    StillRunning game
  | LoopRaised py_error
  | GameOver reason loop_exit game
  | Stopped game

fun main_loop :: "settings \<Rightarrow> scheduled list \<Rightarrow> frame_input list \<Rightarrow> game \<Rightarrow> loop_result" where
  "main_loop cfg level [] g = (if running g then StillRunning g else Stopped g)"
| "main_loop cfg level (inp # rest) g =
     (if \<not> running g then Stopped g
      else case frame cfg level inp g of
             Continue g' \<Rightarrow> main_loop cfg level rest g'
           | Raised e \<Rightarrow> LoopRaised e
           | Terminal r x g' \<Rightarrow> GameOver r x g')"

definition main_game_loop :: "settings \<Rightarrow> scheduled list \<Rightarrow> frame_input list \<Rightarrow> loop_result" where
  "main_game_loop cfg level inputs =
     (case init_game cfg of
        Inl e \<Rightarrow> LoopRaised e
      | Inr g \<Rightarrow> main_loop cfg level inputs g)"

section \<open>Sample inputs\<close>

text \<open>A random source whose every draw is 0: each choice takes the first candidate.\<close>

definition zero_draws :: rng where
  "zero_draws = (\<lambda>k. 0)"

text \<open>
  A tile of the default game (speed 300, width 200, height 100) in the given column at the
  given height, and a game state holding the given tiles and nothing else.
\<close>

definition sample_tile :: "int \<Rightarrow> real \<Rightarrow> tile" where
  "sample_tile col ypos = (Tile_init col 0 300 200 100 600 4)\<lparr>tile_y := ypos\<rparr>"

definition sample_game :: "tile list \<Rightarrow> game" where
  "sample_game ts =
     \<lparr>tiles = ts, animations = [], current_tile_index = 0, score = 0, misses = 0,
      achieved_milestones = [], running = True\<rparr>"

text \<open>A level of four beats, and the input of a frame in which nothing happens.\<close>

definition sample_level :: "scheduled list" where
  "sample_level =
     [\<lparr>time = 1/2, column = 0\<rparr>, \<lparr>time = 1, column = 1\<rparr>,
      \<lparr>time = 3/2, column = 0\<rparr>, \<lparr>time = 2, column = 1\<rparr>]"

definition quiet_frame :: "real \<Rightarrow> int \<Rightarrow> frame_input" where
  "quiet_frame now ms =
     \<lparr>current_time = now, events = [], clock_ms = ms, milestone_clock = (\<lambda>m. now),
      animation_clock = now, music_busy = True, game_over_result = Restart\<rparr>"


text \<open>A level of five beats one second apart, for a run in which every tile falls through.\<close>

definition falling_level :: "scheduled list" where
  "falling_level =
     [\<lparr>time = 0, column = 0\<rparr>, \<lparr>time = 1, column = 1\<rparr>, \<lparr>time = 2, column = 0\<rparr>,
      \<lparr>time = 3, column = 1\<rparr>, \<lparr>time = 4, column = 0\<rparr>]"

section \<open>Properties of level generation\<close>

subsection \<open>The index range\<close>

lemma div_offset: "r < s \<Longrightarrow> (r + k * s) div s = k" for s r k :: nat
  by simp

lemma ceil_div_multiple: "0 < s \<Longrightarrow> (q * s + s - 1) div s = q" for s q :: nat
proof -
  assume s: "0 < s"
  then have "q * s + s - 1 = (s - 1) + q * s" by simp
  moreover have "s - 1 < s" using s by simp
  ultimately show ?thesis using div_offset [of "s - 1" s q] by simp
qed

lemma ceil_div_step:
  "0 < s \<Longrightarrow> \<not> s dvd n \<Longrightarrow> (Suc n + s - 1) div s = (n + s - 1) div s" for s n :: nat
proof -
  assume s: "0 < s" and nd: "\<not> s dvd n"
  define r where "r = n mod s"
  define q where "q = n div s"
  have n: "n = r + q * s" by (simp add: r_def q_def)
  have r: "0 < r" "r < s" using nd s by (auto simp: r_def dvd_eq_mod_eq_0)
  have "Suc n + s - 1 = r + (Suc q) * s" using n by simp
  then have 1: "(Suc n + s - 1) div s = Suc q" using r div_offset [of r s "Suc q"] by simp
  have "n + s - 1 = (r - 1) + (Suc q) * s" using n r by simp
  moreover have "r - 1 < s" using r by simp
  ultimately have 2: "(n + s - 1) div s = Suc q" using div_offset [of "r - 1" s "Suc q"] by simp
  show ?thesis using 1 2 by simp
qed

lemma multiples_below:
  "0 < s \<Longrightarrow> map (\<lambda>k. k * s) [0..<(n + s - 1) div s] = filter (\<lambda>i. s dvd i) [0..<n]"
  for s n :: nat
proof (induction n)
  case 0 then show ?case by simp
next
  case (Suc n)
  show ?case
  proof (cases "s dvd n")
    case True
    then obtain q where q: "n = q * s" by (metis dvd_def mult.commute)
    have a: "(Suc n + s - 1) div s = Suc q" using Suc.prems q by simp
    have b: "(n + s - 1) div s = q" using Suc.prems q ceil_div_multiple by simp
    show ?thesis using Suc a b True q by simp
  next
    case False
    have "(Suc n + s - 1) div s = (n + s - 1) div s" using Suc.prems False by (rule ceil_div_step)
    then show ?thesis using Suc False by simp
  qed
qed

lemma py_range_pos:
  "0 < step \<Longrightarrow> py_range n step = Inr (filter (\<lambda>i. nat step dvd i) [0..<n])"
  using multiples_below [of "nat step" n] by (simp add: py_range_def)

lemma multiples_split:
  "0 < n \<Longrightarrow> filter (\<lambda>i. s dvd i) [0..<n] = 0 # filter (\<lambda>i. s dvd i) [1..<n]" for s n :: nat
  by (simp add: upt_rec [of 0 n])

subsection \<open>Candidate columns and choices\<close>

lemma set_range_columns: "set (range_columns n) = {c. 0 \<le> c \<and> c < n}"
  by (auto simp: range_columns_def)

lemma length_range_columns: "length (range_columns n) = nat n"
  by (simp add: range_columns_def)

lemma distinct_range_columns: "distinct (range_columns n)"
  by (simp add: range_columns_def)

lemma length_other_columns:
  assumes "0 \<le> p" "p < n"
  shows "length (filter (\<lambda>c. c \<noteq> p) (range_columns n)) = nat n - 1"
proof -
  have "p \<in> set (range_columns n)" using assms by (simp add: set_range_columns)
  have "filter (\<lambda>c. c \<noteq> p) xs = removeAll p xs" for xs :: "int list"
    by (induction xs) auto
  then have "length (filter (\<lambda>c. c \<noteq> p) (range_columns n)) = length (remove1 p (range_columns n))"
    using distinct_range_columns by (simp add: distinct_remove1_removeAll)
  then show ?thesis using \<open>p \<in> set (range_columns n)\<close> by (simp add: length_remove1 length_range_columns)
qed

lemma other_columns_nonempty: "2 \<le> n \<Longrightarrow> filter (\<lambda>c. c \<noteq> p) (range_columns n) \<noteq> []"
proof -
  assume n: "2 \<le> n"
  have "(if p = 0 then 1 else 0) \<in> set (filter (\<lambda>c. c \<noteq> p) (range_columns n))"
    using n by (simp add: set_range_columns)
  then show ?thesis by (metis empty_iff empty_set)
qed

lemma random_choice_member:
  "xs \<noteq> [] \<Longrightarrow> \<exists>c rnd'. random_choice rnd xs = Inr (c, rnd') \<and> c \<in> set xs"
  by (simp add: random_choice_def)

subsection \<open>The generation loop\<close>

lemma level_loop_times:
  "level_loop rnd beat_times ncols idxs level = Inr out \<Longrightarrow>
   map time out = map time level @ map (\<lambda>i. beat_times ! i) idxs"
proof (induction idxs arbitrary: rnd level)
  case Nil
  then show ?case by simp
next
  case (Cons i rest)
  then show ?case
    by (auto simp: Let_def split: if_splits sum.splits prod.splits)
qed

lemma level_loop_later:
  assumes "2 \<le> ncols"
    and "\<forall>i\<in>set idxs. i < length beat_times \<and> 0 < i"
    and "level \<noteq> []"
    and "distinct_adj (map column level)"
    and "\<forall>e\<in>set level. 0 \<le> column e \<and> column e < ncols"
  shows "\<exists>out. level_loop rnd beat_times ncols idxs level = Inr out \<and>
           distinct_adj (map column out) \<and>
           (\<forall>e\<in>set out. 0 \<le> column e \<and> column e < ncols)"
  using assms
proof (induction idxs arbitrary: rnd level)
  case Nil
  then show ?case by simp
next
  case (Cons i rest)
  let ?cands = "filter (\<lambda>c. c \<noteq> column (last level)) (range_columns ncols)"
  have "?cands \<noteq> []" using Cons.prems(1) by (rule other_columns_nonempty)
  then obtain c rnd' where ch: "random_choice rnd ?cands = Inr (c, rnd')" and c: "c \<in> set ?cands"
    using random_choice_member by blast
  let ?level = "level @ [\<lparr>time = beat_times ! i, column = c\<rparr>]"
  have step: "level_loop rnd beat_times ncols (i # rest) level =
              level_loop rnd' beat_times ncols rest ?level"
    using Cons.prems(2,3) ch by simp
  have "distinct_adj (map column ?level)"
    using Cons.prems(3,4) c by (simp add: distinct_adj_append_iff last_map)
  moreover have "\<forall>e\<in>set ?level. 0 \<le> column e \<and> column e < ncols"
    using Cons.prems(5) c by (auto simp: set_range_columns)
  moreover have "\<forall>i\<in>set rest. i < length beat_times \<and> 0 < i" using Cons.prems(2) by simp
  ultimately show ?case
    using Cons.IH [of ?level rnd'] Cons.prems(1) step by simp
qed

lemma generate_level_ok:
  assumes "2 \<le> ncols" "1 \<le> beat_skip"
  shows "\<exists>level. generate_level rnd beat_times ncols beat_skip = Inr level \<and>
           distinct_adj (map column level) \<and>
           (\<forall>e\<in>set level. 0 \<le> column e \<and> column e < ncols)"
proof (cases "beat_times = []")
  case True
  then show ?thesis using assms by (simp add: generate_level_def py_range_pos)
next
  case False
  let ?s = "nat beat_skip"
  let ?rest = "filter (\<lambda>i. ?s dvd i) [1..<length beat_times]"
  have rng: "py_range (length beat_times) beat_skip = Inr (0 # ?rest)"
    using assms(2) False by (simp add: py_range_pos multiples_split)
  have "range_columns ncols \<noteq> []"
    using assms(1) length_range_columns [of ncols] by auto
  then obtain c rnd' where ch: "random_choice rnd (range_columns ncols) = Inr (c, rnd')"
    and c: "c \<in> set (range_columns ncols)"
    using random_choice_member by blast
  let ?level = "[\<lparr>time = beat_times ! 0, column = c\<rparr>]"
  have step: "generate_level rnd beat_times ncols beat_skip =
              level_loop rnd' beat_times ncols ?rest ?level"
    using rng ch False by (simp add: generate_level_def)
  have "\<forall>i\<in>set ?rest. i < length beat_times \<and> 0 < i" by auto
  moreover have "\<forall>e\<in>set ?level. 0 \<le> column e \<and> column e < ncols"
    using c by (simp add: set_range_columns)
  ultimately show ?thesis
    using level_loop_later [of ncols ?rest beat_times ?level rnd'] assms(1) step by simp
qed

lemma sorted_selected:
  assumes "sorted (xs :: real list)"
  shows "sorted (map (\<lambda>i. xs ! i) (filter P [0..<length xs]))"
proof -
  have "sorted_wrt (\<le>) (filter P [0..<length xs])" by (simp add: sorted_wrt_filter)
  then have "sorted_wrt (\<lambda>i j. xs ! i \<le> xs ! j) (filter P [0..<length xs])"
    by (rule sorted_wrt_mono_rel [rotated]) (auto intro: sorted_nth_mono [OF assms])
  then show ?thesis by (simp add: sorted_wrt_map)
qed



subsection \<open>Empty input\<close>

text \<open>
  On an empty beat-time sequence with the default stride, \<open>generate_level\<close> returns the
  empty level, not an error, and \<open>run_piano_tiles_clone\<close> goes on to the game loop with it.
\<close>

theorem generate_level_empty_counterexample:
  "generate_level zero_draws [] 4 1 = Inr [] \<and>
   start_session zero_draws True (Some 120, []) 1 StartClicked = EnterGameLoop []"
  by (simp add: generate_level_def py_range_def start_session_def)

text \<open>
  Claim C1, as the code has it: there is no \<open>EmptyInputError\<close>.  For an empty beat-time
  sequence and any non-zero \<open>beat_skip\<close>, \<open>generate_level\<close> returns the empty level, and
  the caller, with the audio loaded, a tempo found and the start button clicked, enters the
  game loop with the empty level.
\<close>

theorem generate_level_empty:
  "beat_skip \<noteq> 0 \<Longrightarrow>
   generate_level rnd [] ncols beat_skip = Inr [] \<and>
   start_session rnd True (Some tempo, []) beat_skip StartClicked = EnterGameLoop []"
  by (simp add: generate_level_def py_range_def start_session_def)

theorem generate_level_empty_witness:
  "(1::int) \<noteq> 0 \<and> generate_level zero_draws [] 4 1 = Inr [] \<and>
   start_session zero_draws True (Some 120, []) 1 StartClicked = EnterGameLoop []"
  using generate_level_empty [of 1 zero_draws 4 120] by simp

subsection \<open>No immediate repeat of a column\<close>

text \<open>
  Claim C5: with at least two columns and a stride of at least one, \<open>generate_level\<close>
  returns a level in which no entry has the column of the entry before it.  Every column
  is one of \<open>range(num_columns)\<close>, which has \<open>num_columns\<close> members, and every column
  after the first is taken from the candidates other than the column before it, of which
  there are \<open>num_columns - 1\<close>.
\<close>

theorem generate_level_no_repeat:
  assumes "2 \<le> ncols" and "1 \<le> beat_skip"
  shows "\<exists>level. generate_level rnd beat_times ncols beat_skip = Inr level \<and>
           (\<forall>k. Suc k < length level \<longrightarrow> column (level ! Suc k) \<noteq> column (level ! k)) \<and>
           (\<forall>k < length level. column (level ! k) \<in> set (range_columns ncols)) \<and>
           (\<forall>k. Suc k < length level \<longrightarrow>
              column (level ! Suc k) \<in>
                set (filter (\<lambda>c. c \<noteq> column (level ! k)) (range_columns ncols)) \<and>
              length (filter (\<lambda>c. c \<noteq> column (level ! k)) (range_columns ncols)) =
                nat ncols - 1) \<and>
           length (range_columns ncols) = nat ncols"
proof -
  obtain level where lv: "generate_level rnd beat_times ncols beat_skip = Inr level"
    and adj: "distinct_adj (map column level)"
    and rng: "\<forall>e\<in>set level. 0 \<le> column e \<and> column e < ncols"
    using generate_level_ok [OF assms] by blast
  have neq: "column (level ! Suc k) \<noteq> column (level ! k)" if "Suc k < length level" for k
    using adj that by (auto simp: distinct_adj_conv_nth)
  have mem: "column (level ! k) \<in> set (range_columns ncols)" if "k < length level" for k
    using rng that by (simp add: set_range_columns)
  have cnt: "length (filter (\<lambda>c. c \<noteq> column (level ! k)) (range_columns ncols)) =
               nat ncols - 1" if "Suc k < length level" for k
    using rng that by (intro length_other_columns) auto
  show ?thesis
    using lv neq mem cnt by (auto simp: length_range_columns)
qed

lemma sample_generated:
  "generate_level zero_draws [1/2, 1, 3/2, 2] 4 1 = Inr sample_level"
  by code_simp

theorem generate_level_no_repeat_witness:
  "(2::int) \<le> 4 \<and> (1::int) \<le> 1 \<and>
   (\<exists>level. generate_level zero_draws [1/2, 1, 3/2, 2] 4 1 = Inr level \<and>
      length level = 4 \<and> column (level ! Suc 0) \<noteq> column (level ! 0))"
proof -
  obtain level where lv: "generate_level zero_draws [1/2, 1, 3/2, 2] 4 1 = Inr level"
    and neq: "\<forall>k. Suc k < length level \<longrightarrow> column (level ! Suc k) \<noteq> column (level ! k)"
    using generate_level_no_repeat [of 4 1 zero_draws "[1/2, 1, 3/2, 2]"] by auto
  have len: "length level = 4" using lv sample_generated by (auto simp: sample_level_def)
  have "column (level ! Suc 0) \<noteq> column (level ! 0)" using neq len by simp
  then show ?thesis using lv len by simp
qed

subsection \<open>Times of the level\<close>

text \<open>
  Claim C6: with a stride of at least one, the times of a returned level are the beat
  times at the indices \<open>0, beat_skip, 2*beat_skip, ...\<close> (the multiples of \<open>beat_skip\<close>
  below the length), in that order, so they are non-decreasing when the beat times are.
  With at least two columns a level is returned.
\<close>

theorem generate_level_times:
  assumes "1 \<le> beat_skip"
  shows "(\<forall>level. generate_level rnd beat_times ncols beat_skip = Inr level \<longrightarrow>
            map time level =
              map (\<lambda>i. beat_times ! i) (filter (\<lambda>i. nat beat_skip dvd i) [0..<length beat_times]) \<and>
            map time level =
              map (\<lambda>k. beat_times ! (k * nat beat_skip))
                [0..<(length beat_times + nat beat_skip - 1) div nat beat_skip] \<and>
            (sorted beat_times \<longrightarrow> sorted (map time level))) \<and>
         (2 \<le> ncols \<longrightarrow>
            (\<exists>level. generate_level rnd beat_times ncols beat_skip = Inr level))"
proof -
  have a: "map time level =
             map (\<lambda>i. beat_times ! i) (filter (\<lambda>i. nat beat_skip dvd i) [0..<length beat_times])"
    if "generate_level rnd beat_times ncols beat_skip = Inr level" for level
    using that assms level_loop_times [of rnd beat_times ncols _ "[]" level]
    by (simp add: generate_level_def py_range_pos)
  have a': "map time level =
              map (\<lambda>k. beat_times ! (k * nat beat_skip))
                [0..<(length beat_times + nat beat_skip - 1) div nat beat_skip]"
    if "generate_level rnd beat_times ncols beat_skip = Inr level" for level
  proof -
    have "map (\<lambda>i. beat_times ! i)
            (map (\<lambda>k. k * nat beat_skip)
               [0..<(length beat_times + nat beat_skip - 1) div nat beat_skip]) =
          map (\<lambda>i. beat_times ! i) (filter (\<lambda>i. nat beat_skip dvd i) [0..<length beat_times])"
      using assms multiples_below [of "nat beat_skip" "length beat_times"] by simp
    then show ?thesis using a [OF that] by (simp add: comp_def)
  qed
  have b: "sorted (map time level)"
    if "generate_level rnd beat_times ncols beat_skip = Inr level" "sorted beat_times" for level
    using a [OF that(1)] sorted_selected [OF that(2)] by simp
  have c: "\<exists>level. generate_level rnd beat_times ncols beat_skip = Inr level"
    if "2 \<le> ncols"
    using generate_level_ok [OF that assms] by blast
  show ?thesis using a a' b c by blast
qed

theorem generate_level_times_witness:
  "(1::int) \<le> 2 \<and> (2::int) \<le> 4 \<and> sorted [1/2, 1, 3/2, 2, 5/2 :: real] \<and>
   (\<exists>level. generate_level zero_draws [1/2, 1, 3/2, 2, 5/2] 4 2 = Inr level \<and>
      map time level = [1/2, 3/2, 5/2] \<and> sorted (map time level))"
proof -
  have s: "sorted [1/2, 1, 3/2, 2, 5/2 :: real]" by simp
  have f: "filter (\<lambda>i. nat 2 dvd i) [0..<length [1/2, 1, 3/2, 2, 5/2 :: real]] = [0, 2, 4]"
    by (simp add: upt_rec_numeral)
  show ?thesis
    using generate_level_times [of 2 zero_draws "[1/2, 1, 3/2, 2, 5/2]" 4] s f by auto
qed

section \<open>Properties of the input handling\<close>

subsection \<open>Keys, scanning and removal\<close>

lemma key_to_column_unmapped:
  "key \<notin> {K_q, K_w, K_e, K_r} \<Longrightarrow> key_to_column key = None"
  by (simp add: key_to_column_def)

lemma key_to_column_mapped:
  "key_to_column K_q = Some 0" "key_to_column K_w = Some 1"
  "key_to_column K_e = Some 2" "key_to_column K_r = Some 3"
  by (simp_all add: key_to_column_def K_q_def K_w_def K_e_def K_r_def)

lemma remove1_first_index:
  "i < length xs \<Longrightarrow> \<forall>j<i. xs ! j \<noteq> xs ! i \<Longrightarrow>
   remove1 (xs ! i) xs = take i xs @ drop (Suc i) xs"
proof (induction xs arbitrary: i)
  case Nil
  then show ?case by simp
next
  case (Cons x xs)
  show ?case
  proof (cases i)
    case 0
    then show ?thesis by simp
  next
    case (Suc k)
    have "x \<noteq> (x # xs) ! i" using Cons.prems(2) Suc by force
    moreover have "\<forall>j<k. xs ! j \<noteq> xs ! k" using Cons.prems(2) Suc by force
    ultimately show ?thesis using Cons.IH [of k] Cons.prems(1) Suc by simp
  qed
qed

lemma find_first_index:
  "i < length xs \<Longrightarrow> P (xs ! i) \<Longrightarrow> \<forall>j<i. \<not> P (xs ! j) \<Longrightarrow> find P xs = Some (xs ! i)"
  by (auto simp: find_Some_iff)

lemma handle_tile_tap_hit:
  assumes "key_to_column key = Some lane"
    and "i < length ts"
    and "tile_in_hit_zone lane (sheight - theight - 300) (sheight - theight + 300) (ts ! i)"
    and "\<forall>j<i. \<not> tile_in_hit_zone lane (sheight - theight - 300) (sheight - theight + 300) (ts ! j)"
  shows "handle_tile_tap key ts ncols swidth sheight theight sc anims =
           Inr (take i ts @ drop (Suc i) ts, sc + 1,
                anims @ [Circle (tile_x (ts ! i) + tile_width (ts ! i) div 2)
                           (tile_y (ts ! i) + real_of_int (tile_height (ts ! i) div 2))
                           30 (0, 0, 255) 255])"
proof -
  let ?P = "tile_in_hit_zone lane (sheight - theight - 300) (sheight - theight + 300)"
  have f: "find ?P ts = Some (ts ! i)" using assms(2-4) by (rule find_first_index)
  have "\<forall>j<i. ts ! j \<noteq> ts ! i" using assms(3,4) by auto
  then have r: "remove1 (ts ! i) ts = take i ts @ drop (Suc i) ts"
    using assms(2) by (simp add: remove1_first_index)
  show ?thesis using assms(1) f r by (simp add: handle_tile_tap_def)
qed

lemma handle_tile_tap_miss:
  assumes "key_to_column key = Some lane"
    and "\<forall>t\<in>set ts. \<not> tile_in_hit_zone lane (sheight - theight - 300) (sheight - theight + 300) t"
    and "ncols \<noteq> 0"
  shows "handle_tile_tap key ts ncols swidth sheight theight sc anims =
           Inr (ts, sc - 1,
                anims @ [Circle (lane * (swidth div ncols) + (swidth div ncols) div 2)
                           (real_of_int (sheight - theight)) 30 (255, 0, 0) 255])"
proof -
  let ?P = "tile_in_hit_zone lane (sheight - theight - 300) (sheight - theight + 300)"
  have "find ?P ts = None" using assms(2) by (simp add: find_None_iff)
  then show ?thesis using assms(1,3) by (simp add: handle_tile_tap_def)
qed

lemma first_match_exists:
  "\<exists>t\<in>set ts. P t \<Longrightarrow> \<exists>i<length ts. P (ts ! i) \<and> (\<forall>j<i. \<not> P (ts ! j))"
proof -
  assume "\<exists>t\<in>set ts. P t"
  then obtain t where "find P ts = Some t" by (cases "find P ts") (auto simp: find_None_iff)
  then show ?thesis by (auto simp: find_Some_iff)
qed

lemma handle_tile_tap_raises:
  assumes "key_to_column key = Some lane"
    and "\<forall>t\<in>set ts. \<not> tile_in_hit_zone lane (sheight - theight - 300) (sheight - theight + 300) t"
  shows "handle_tile_tap key ts 0 swidth sheight theight sc anims = Inl ZeroDivisionError"
proof -
  let ?P = "tile_in_hit_zone lane (sheight - theight - 300) (sheight - theight + 300)"
  have "find ?P ts = None" using assms(2) by (simp add: find_None_iff)
  then show ?thesis using assms(1) by (simp add: handle_tile_tap_def)
qed


subsection \<open>Keys outside the four lanes\<close>

text \<open>
  Claim C10: for a key that is none of \<open>Q\<close>, \<open>W\<close>, \<open>E\<close>, \<open>R\<close>, \<open>handle_tile_tap\<close> returns the
  tiles, the score and the animations as they were, and the key-down event leaves the
  whole state of the game loop, the miss count included, unchanged: no penalty.
\<close>

theorem handle_tile_tap_unmapped:
  assumes "key \<notin> {K_q, K_w, K_e, K_r}"
  shows "handle_tile_tap key ts ncols swidth sheight theight sc anims = Inr (ts, sc, anims) \<and>
         handle_events cfg [KEYDOWN key] g = Inr g"
  using key_to_column_unmapped [OF assms] by (simp add: handle_tile_tap_def)

theorem handle_tile_tap_unmapped_witness:
  "(97::int) \<notin> {K_q, K_w, K_e, K_r} \<and>
   handle_tile_tap 97 [sample_tile 0 450] 4 800 600 100 3 [] = Inr ([sample_tile 0 450], 3, []) \<and>
   handle_events default_settings [KEYDOWN 97] (sample_game [sample_tile 0 450]) =
     Inr (sample_game [sample_tile 0 450])"
proof -
  have k: "(97::int) \<notin> {K_q, K_w, K_e, K_r}"
    by (simp add: K_q_def K_w_def K_e_def K_r_def)
  show ?thesis
    using k handle_tile_tap_unmapped [OF k, of "[sample_tile 0 450]" 4 800 600 100 3 "[]"
        default_settings "sample_game [sample_tile 0 450]"]
    by simp
qed

subsection \<open>One tile per key press\<close>

text \<open>
  Claim C4: for a key of lane \<open>lane\<close>, with the hit zone from \<open>hit_zone_y - 300\<close> to
  \<open>hit_zone_y + 300\<close> where \<open>hit_zone_y = screen_height - tile_height\<close>: when \<open>i\<close> is the
  first position, in list order, of a tile of that lane inside the zone, the tiles left are
  the list without position \<open>i\<close>; when no tile matches, the list is unchanged; and
  whatever is returned, the list lost at most one position.
\<close>

theorem handle_tile_tap_first_match:
  assumes "key_to_column key = Some lane"
  shows "(\<forall>i. i < length ts \<and>
              tile_in_hit_zone lane (sheight - theight - 300) (sheight - theight + 300) (ts ! i) \<and>
              (\<forall>j<i. \<not> tile_in_hit_zone lane (sheight - theight - 300) (sheight - theight + 300) (ts ! j))
            \<longrightarrow> (\<exists>sc' anims'. handle_tile_tap key ts ncols swidth sheight theight sc anims =
                    Inr (take i ts @ drop (Suc i) ts, sc', anims'))) \<and>
         ((\<forall>t\<in>set ts. \<not> tile_in_hit_zone lane (sheight - theight - 300) (sheight - theight + 300) t)
            \<and> ncols \<noteq> 0
            \<longrightarrow> (\<exists>sc' anims'. handle_tile_tap key ts ncols swidth sheight theight sc anims =
                    Inr (ts, sc', anims'))) \<and>
         (\<forall>ts' sc' anims'.
            handle_tile_tap key ts ncols swidth sheight theight sc anims = Inr (ts', sc', anims')
            \<longrightarrow> ts' = ts \<or> (\<exists>i<length ts. ts' = take i ts @ drop (Suc i) ts))"
proof -
  let ?P = "tile_in_hit_zone lane (sheight - theight - 300) (sheight - theight + 300)"
  have one: "ts' = ts \<or> (\<exists>i<length ts. ts' = take i ts @ drop (Suc i) ts)"
    if r: "handle_tile_tap key ts ncols swidth sheight theight sc anims = Inr (ts', sc', anims')"
    for ts' sc' anims'
  proof (cases "\<exists>t\<in>set ts. ?P t")
    case True
    then obtain i where "i < length ts" "?P (ts ! i)" "\<forall>j<i. \<not> ?P (ts ! j)"
      using first_match_exists [of ts ?P] by blast
    then show ?thesis
      using handle_tile_tap_hit [OF assms, of i ts sheight theight ncols swidth sc anims] r by auto
  next
    case False
    then show ?thesis
      using handle_tile_tap_miss [OF assms, of ts sheight theight ncols swidth sc anims]
        handle_tile_tap_raises [OF assms, of ts sheight theight swidth sc anims] r
      by (cases "ncols = 0") auto
  qed
  show ?thesis
    using handle_tile_tap_hit [OF assms] handle_tile_tap_miss [OF assms] one by blast
qed

theorem handle_tile_tap_first_match_witness:
  "key_to_column K_q = Some 0 \<and>
   (\<exists>sc' anims'.
      handle_tile_tap K_q
        [sample_tile 0 100, sample_tile 1 500, sample_tile 0 300, sample_tile 0 400]
        4 800 600 100 0 [] =
      Inr ([sample_tile 0 100, sample_tile 1 500, sample_tile 0 400], sc', anims'))"
proof -
  let ?ts = "[sample_tile 0 100, sample_tile 1 500, sample_tile 0 300, sample_tile 0 400]"
  have k: "key_to_column K_q = Some 0" by (rule key_to_column_mapped)
  have a: "2 < length ?ts" by simp
  have b: "tile_in_hit_zone 0 (600 - 100 - 300) (600 - 100 + 300) (?ts ! 2)"
    by (simp add: tile_in_hit_zone_def sample_tile_def Tile_init_def)
  have c: "\<forall>j<2. \<not> tile_in_hit_zone 0 (600 - 100 - 300) (600 - 100 + 300) (?ts ! j)"
    by (simp add: tile_in_hit_zone_def sample_tile_def Tile_init_def less_2_cases_iff)
  have "\<exists>sc' anims'. handle_tile_tap K_q ?ts 4 800 600 100 0 [] =
          Inr (take 2 ?ts @ drop (Suc 2) ?ts, sc', anims')"
    using handle_tile_tap_first_match [OF k, of ?ts 600 100 4 800 0 "[]"] a b c by blast
  then show ?thesis using k by simp
qed

section \<open>Properties of the game loop\<close>

subsection \<open>Events and fallen tiles\<close>

lemma handle_events_misses:
  "handle_events cfg evs g = Inr g' \<Longrightarrow>
   misses g' = misses g \<and> current_tile_index g' = current_tile_index g \<and>
   achieved_milestones g' = achieved_milestones g"
proof (induction cfg evs g rule: handle_events.induct)
  case (1 cfg g)
  then show ?case by simp
next
  case (2 cfg evs g)
  then show ?case by simp
next
  case (3 cfg key evs g)
  then show ?case by (auto split: sum.splits prod.splits)
next
  case (4 cfg evs g)
  then show ?case by simp
qed

lemma handle_tile_tap_total:
  "ncols \<noteq> 0 \<Longrightarrow> \<exists>r. handle_tile_tap key ts ncols swidth sheight theight sc anims = Inr r"
  by (simp add: handle_tile_tap_def Let_def split: option.splits)

lemma handle_events_total:
  "num_columns cfg \<noteq> 0 \<Longrightarrow> \<exists>g'. handle_events cfg evs g = Inr g'"
proof (induction cfg evs g rule: handle_events.induct)
  case (3 cfg key evs g)
  obtain ts sc anims where
    "handle_tile_tap key (tiles g) (num_columns cfg) (screen_width cfg) (screen_height cfg)
       main_tile_height (score g) (animations g) = Inr (ts, sc, anims)"
    using handle_tile_tap_total [OF "3.prems"] by (metis prod_cases3)
  then show ?case using 3 by simp
qed simp_all

lemma detect_missed_general:
  assumes "tiles g = kept @ ts"
    and "\<forall>t\<in>set kept. \<not> tile_y t > real_of_int (screen_height cfg)"
    and "misses g < max_misses"
    and "detect_missed cfg ts g = (g', over)"
  shows "score g' = score g \<and> current_tile_index g' = current_tile_index g \<and>
         achieved_milestones g' = achieved_milestones g \<and> running g' = running g \<and>
         (over \<longrightarrow> misses g' = max_misses \<and>
            max_misses \<le> misses g + int (length (filter (\<lambda>t. tile_y t > real_of_int (screen_height cfg)) ts))) \<and>
         (\<not> over \<longrightarrow>
            misses g' = misses g + int (length (filter (\<lambda>t. tile_y t > real_of_int (screen_height cfg)) ts)) \<and>
            misses g' < max_misses \<and>
            tiles g' = kept @ filter (\<lambda>t. \<not> tile_y t > real_of_int (screen_height cfg)) ts)"
  using assms
proof (induction ts arbitrary: g kept)
  case Nil
  then show ?case by auto
next
  case (Cons t rest)
  show ?case
  proof (cases "tile_y t > real_of_int (screen_height cfg)")
    case False
    have 1: "tiles g = (kept @ [t]) @ rest" using Cons.prems(1) by simp
    have 2: "\<forall>u\<in>set (kept @ [t]). \<not> tile_y u > real_of_int (screen_height cfg)"
      using Cons.prems(2) False by auto
    have 3: "detect_missed cfg rest g = (g', over)" using Cons.prems(4) False by simp
    show ?thesis using Cons.IH [OF 1 2 Cons.prems(3) 3] False by auto
  next
    case True
    let ?g = "g\<lparr>tiles := remove1 t (tiles g), misses := misses g + 1,
                 animations := animations g @
                   [Circle (tile_x t + tile_width t div 2)
                      (tile_y t + real_of_int (tile_height t div 2)) 30 (255, 0, 0) 255]\<rparr>"
    have "t \<notin> set kept" using Cons.prems(2) True by auto
    then have rm: "tiles ?g = kept @ rest" using Cons.prems(1) by (simp add: remove1_append)
    show ?thesis
    proof (cases "misses g + 1 \<ge> max_misses")
      case True
      then have "detect_missed cfg (t # rest) g = (?g, True)"
        using \<open>tile_y t > real_of_int (screen_height cfg)\<close> by (simp add: Let_def)
      then have "g' = ?g" "over" using Cons.prems(4) by auto
      then show ?thesis
        using True Cons.prems(3) \<open>tile_y t > real_of_int (screen_height cfg)\<close> by auto
    next
      case False
      then have 3: "detect_missed cfg rest ?g = (g', over)"
        using Cons.prems(4) True by (simp add: Let_def)
      have 4: "misses ?g < max_misses" using False by simp
      show ?thesis using Cons.IH [OF rm Cons.prems(2) 4 3] True by auto
    qed
  qed
qed

lemma detect_missed_frame:
  assumes "misses g < max_misses" and "detect_missed cfg (tiles g) g = (g', over)"
  shows "score g' = score g \<and> current_tile_index g' = current_tile_index g \<and>
         achieved_milestones g' = achieved_milestones g \<and> running g' = running g \<and>
         (over \<longrightarrow> misses g' = max_misses \<and>
            max_misses \<le> misses g + int (length (filter (\<lambda>t. tile_y t > real_of_int (screen_height cfg)) (tiles g)))) \<and>
         (\<not> over \<longrightarrow>
            misses g' = misses g + int (length (filter (\<lambda>t. tile_y t > real_of_int (screen_height cfg)) (tiles g))) \<and>
            misses g' < max_misses \<and>
            tiles g' = filter (\<lambda>t. \<not> tile_y t > real_of_int (screen_height cfg)) (tiles g))"
  using detect_missed_general [of g "[]" "tiles g" cfg g' over] assms by auto

subsection \<open>Score and miss count\<close>

lemma handle_events_keydown:
  "handle_tile_tap key (tiles g) (num_columns cfg) (screen_width cfg) (screen_height cfg)
     main_tile_height (score g) (animations g) = Inr (ts, sc, anims) \<Longrightarrow>
   handle_events cfg [KEYDOWN key] g = Inr (g\<lparr>tiles := ts, score := sc, animations := anims\<rparr>)"
  by simp

text \<open>
  Claim C2: a key press of a lane with a tile in the hit zone (a hit) adds 1 to the score
  and leaves the miss count; a key press of a lane with no tile in the hit zone (a wrong
  tap) takes 1 from the score and leaves the miss count; a tile that has fallen below the
  screen adds 1 to the miss count and leaves the score, and a whole pass over the fallen
  tiles that does not end the game adds their number.  The witness runs a hit, a wrong
  tap and a fallen tile from score 0 and miss count 0 and ends at score 0 and miss count 1.
\<close>

theorem score_and_misses:
  assumes "num_columns cfg \<noteq> 0" and "key_to_column key = Some lane"
  shows "((\<exists>t\<in>set (tiles g). tile_in_hit_zone lane (screen_height cfg - main_tile_height - 300)
                                (screen_height cfg - main_tile_height + 300) t) \<longrightarrow>
            (\<exists>g'. handle_events cfg [KEYDOWN key] g = Inr g' \<and>
                   score g' = score g + 1 \<and> misses g' = misses g)) \<and>
         ((\<forall>t\<in>set (tiles g). \<not> tile_in_hit_zone lane (screen_height cfg - main_tile_height - 300)
                                (screen_height cfg - main_tile_height + 300) t) \<longrightarrow>
            (\<exists>g'. handle_events cfg [KEYDOWN key] g = Inr g' \<and>
                   score g' = score g - 1 \<and> misses g' = misses g)) \<and>
         (\<forall>t g' over. tile_y t > real_of_int (screen_height cfg) \<and>
                       detect_missed cfg [t] g = (g', over) \<longrightarrow>
            misses g' = misses g + 1 \<and> score g' = score g) \<and>
         (\<forall>g'. misses g < max_misses \<and> detect_missed cfg (tiles g) g = (g', False) \<longrightarrow>
            score g' = score g \<and>
            misses g' = misses g +
              int (length (filter (\<lambda>t. tile_y t > real_of_int (screen_height cfg)) (tiles g))))"
proof -
  let ?Z = "tile_in_hit_zone lane (screen_height cfg - main_tile_height - 300)
              (screen_height cfg - main_tile_height + 300)"
  have hit: "\<exists>g'. handle_events cfg [KEYDOWN key] g = Inr g' \<and>
                   score g' = score g + 1 \<and> misses g' = misses g"
    if ex: "\<exists>t\<in>set (tiles g). ?Z t"
  proof -
    obtain i where i: "i < length (tiles g)" "?Z (tiles g ! i)" "\<forall>j<i. \<not> ?Z (tiles g ! j)"
      using first_match_exists [OF ex] by blast
    show ?thesis
      using handle_events_keydown [OF handle_tile_tap_hit [OF assms(2) i]] by simp
  qed
  have wrong: "\<exists>g'. handle_events cfg [KEYDOWN key] g = Inr g' \<and>
                   score g' = score g - 1 \<and> misses g' = misses g"
    if "\<forall>t\<in>set (tiles g). \<not> ?Z t"
    using handle_events_keydown [OF handle_tile_tap_miss [OF assms(2) that assms(1)]] by simp
  have fall: "misses g' = misses g + 1 \<and> score g' = score g"
    if "tile_y t > real_of_int (screen_height cfg)" "detect_missed cfg [t] g = (g', over)"
    for t g' over
    using that by (auto simp: Let_def split: if_splits)
  have falls: "score g' = score g \<and>
            misses g' = misses g +
              int (length (filter (\<lambda>t. tile_y t > real_of_int (screen_height cfg)) (tiles g)))"
    if "misses g < max_misses" "detect_missed cfg (tiles g) g = (g', False)" for g'
    using detect_missed_frame [OF that] by simp
  show ?thesis using hit wrong fall falls by blast
qed

lemma sample_hit:
  "handle_events default_settings [KEYDOWN K_q]
     (sample_game [sample_tile 0 450, sample_tile 1 700]) =
   Inr ((sample_game [sample_tile 1 700])
          \<lparr>score := 1, animations := [Circle 100 500 30 (0, 0, 255) 255]\<rparr>)"
  by code_simp

theorem score_and_misses_witness:
  "num_columns default_settings \<noteq> 0 \<and> key_to_column K_q = Some 0 \<and>
   (\<exists>g1 g2 g3 over.
      handle_events default_settings [KEYDOWN K_q]
        (sample_game [sample_tile 0 450, sample_tile 1 700]) = Inr g1 \<and>
      score g1 = 1 \<and> misses g1 = 0 \<and>
      handle_events default_settings [KEYDOWN K_q] g1 = Inr g2 \<and>
      score g2 = 0 \<and> misses g2 = 0 \<and>
      detect_missed default_settings (tiles g2) g2 = (g3, over) \<and>
      score g3 = 0 \<and> misses g3 = 1)"
proof -
  let ?g = "sample_game [sample_tile 0 450, sample_tile 1 700]"
  let ?Z = "tile_in_hit_zone 0 (screen_height default_settings - main_tile_height - 300)
              (screen_height default_settings - main_tile_height + 300)"
  have n: "num_columns default_settings \<noteq> 0" by (simp add: default_settings_def)
  have k: "key_to_column K_q = Some 0" by (rule key_to_column_mapped)
  note sm = score_and_misses [OF n k]
  have z: "\<exists>t\<in>set (tiles ?g). ?Z t"
    by (simp add: sample_game_def sample_tile_def Tile_init_def tile_in_hit_zone_def
          default_settings_def main_tile_height_def)
  obtain g1 where g1: "handle_events default_settings [KEYDOWN K_q] ?g = Inr g1"
    "score g1 = score ?g + 1" "misses g1 = misses ?g"
    using sm [of ?g] z by blast
  have t1: "tiles g1 = [sample_tile 1 700]" using g1(1) sample_hit by (simp add: sample_game_def)
  have nz: "\<forall>t\<in>set (tiles g1). \<not> ?Z t"
    by (simp add: t1 sample_tile_def Tile_init_def tile_in_hit_zone_def)
  obtain g2 where g2: "handle_events default_settings [KEYDOWN K_q] g1 = Inr g2"
    "score g2 = score g1 - 1" "misses g2 = misses g1"
    using sm [of g1] nz by blast
  have t2: "tiles g2 = [sample_tile 1 700]"
    using g2(1) t1 handle_tile_tap_miss [OF k, of "tiles g1" 600 100 4 800 "score g1" "animations g1"] nz
    by (auto simp: default_settings_def main_tile_height_def)
  obtain g3 over where g3: "detect_missed default_settings [sample_tile 1 700] g2 = (g3, over)"
    by (cases "detect_missed default_settings [sample_tile 1 700] g2")
  have b: "tile_y (sample_tile 1 700) > real_of_int (screen_height default_settings)"
    by (simp add: sample_tile_def default_settings_def)
  have "misses g3 = misses g2 + 1 \<and> score g3 = score g2"
    using sm [of g2] b g3 by blast
  then show ?thesis
    using n k g1 g2 g3 t2 by (auto simp: sample_game_def)
qed

subsection \<open>Spawning\<close>

lemma spawn_tiles_run:
  "spawn_tiles cfg level now g =
     g\<lparr>tiles := tiles g @
          map (new_tile cfg) (takeWhile (\<lambda>e. time e \<le> now) (drop (current_tile_index g) level)),
       current_tile_index := current_tile_index g +
          length (takeWhile (\<lambda>e. time e \<le> now) (drop (current_tile_index g) level))\<rparr>"
proof (induction cfg level now g rule: spawn_tiles.induct)
  case (1 cfg level now g)
  let ?i = "current_tile_index g"
  show ?case
  proof (cases "?i < length level \<and> time (level ! ?i) \<le> now")
    case True
    then have d: "drop ?i level = level ! ?i # drop (Suc ?i) level"
      by (simp add: Cons_nth_drop_Suc)
    show ?thesis
      by (subst spawn_tiles.simps) (use True d 1 in simp)
  next
    case False
    then have "takeWhile (\<lambda>e. time e \<le> now) (drop ?i level) = []"
      by (cases "?i < length level") (simp_all add: takeWhile_eq_Nil_iff hd_drop_conv_nth)
    then show ?thesis
      by (subst spawn_tiles.simps) (use False in auto)
  qed
qed

lemma takeWhile_sorted_filter:
  "sorted (map time es) \<Longrightarrow>
   takeWhile (\<lambda>e. time e \<le> now) es = filter (\<lambda>e. time e \<le> now) es"
proof (induction es)
  case Nil
  then show ?case by simp
next
  case (Cons e es)
  show ?case
  proof (cases "time e \<le> now")
    case True
    then show ?thesis using Cons by simp
  next
    case False
    then have "\<forall>x\<in>set es. \<not> time x \<le> now" using Cons.prems by auto
    then have "filter (\<lambda>e. time e \<le> now) es = []" by (simp add: filter_empty_conv)
    then show ?thesis using False by simp
  qed
qed

lemma sorted_drop_times: "sorted (map time level) \<Longrightarrow> sorted (map time (drop i level))"
  by (simp add: drop_map [symmetric] sorted_wrt_drop)

lemma spawn_tiles_sorted:
  assumes "sorted (map time level)"
  shows "spawn_tiles cfg level now g =
     g\<lparr>tiles := tiles g @
          map (new_tile cfg) (filter (\<lambda>e. time e \<le> now) (drop (current_tile_index g) level)),
       current_tile_index := current_tile_index g +
          length (filter (\<lambda>e. time e \<le> now) (drop (current_tile_index g) level))\<rparr>"
  using takeWhile_sorted_filter [OF sorted_drop_times [OF assms]] by (simp add: spawn_tiles_run)

lemma due_accumulates:
  "sorted (map time level) \<Longrightarrow> a \<le> b \<Longrightarrow>
   filter (\<lambda>e. time e \<le> a) level @
     filter (\<lambda>e. time e \<le> b) (drop (length (filter (\<lambda>e. time e \<le> a) level)) level) =
   filter (\<lambda>e. time e \<le> b) level"
proof (induction level)
  case Nil
  then show ?case by simp
next
  case (Cons e es)
  show ?case
  proof (cases "time e \<le> a")
    case True
    then show ?thesis using Cons by simp
  next
    case False
    then have "\<forall>x\<in>set es. \<not> time x \<le> a" using Cons.prems(1) by auto
    then have "filter (\<lambda>e. time e \<le> a) es = []" by (simp add: filter_empty_conv)
    then show ?thesis using False by simp
  qed
qed

lemma spawn_ticks:
  assumes "sorted (map time level)"
  shows "sorted (a # nows) \<Longrightarrow>
    current_tile_index g = length (filter (\<lambda>e. time e \<le> a) level) \<Longrightarrow>
    tiles g = pre @ map (new_tile cfg) (filter (\<lambda>e. time e \<le> a) level) \<Longrightarrow>
    foldl (\<lambda>g t. spawn_tiles cfg level t g) g nows =
      g\<lparr>tiles := pre @ map (new_tile cfg) (filter (\<lambda>e. time e \<le> last (a # nows)) level),
        current_tile_index := length (filter (\<lambda>e. time e \<le> last (a # nows)) level)\<rparr>"
proof (induction nows arbitrary: a g)
  case Nil
  then show ?case by simp
next
  case (Cons b nows)
  let ?g = "spawn_tiles cfg level b g"
  have ab: "a \<le> b" using Cons.prems(1) by simp
  have acc: "filter (\<lambda>e. time e \<le> a) level @
     filter (\<lambda>e. time e \<le> b) (drop (length (filter (\<lambda>e. time e \<le> a) level)) level) =
     filter (\<lambda>e. time e \<le> b) level"
    using assms ab by (rule due_accumulates)
  have g: "?g = g\<lparr>tiles := pre @ map (new_tile cfg) (filter (\<lambda>e. time e \<le> b) level),
                   current_tile_index := length (filter (\<lambda>e. time e \<le> b) level)\<rparr>"
  proof -
    have len: "length (filter (\<lambda>e. time e \<le> a) level) +
          length (filter (\<lambda>e. time e \<le> b) (drop (length (filter (\<lambda>e. time e \<le> a) level)) level)) =
          length (filter (\<lambda>e. time e \<le> b) level)"
      by (metis acc length_append)
    have mp: "map (new_tile cfg) (filter (\<lambda>e. time e \<le> a) level) @
          map (new_tile cfg) (filter (\<lambda>e. time e \<le> b) (drop (length (filter (\<lambda>e. time e \<le> a) level)) level)) =
          map (new_tile cfg) (filter (\<lambda>e. time e \<le> b) level)"
      by (metis acc map_append)
    show ?thesis
      using Cons.prems(2,3) len mp by (simp add: spawn_tiles_sorted [OF assms])
  qed
  have 1: "sorted (b # nows)" using Cons.prems(1) by simp
  have 2: "current_tile_index ?g = length (filter (\<lambda>e. time e \<le> b) level)" using g by simp
  have 3: "tiles ?g = pre @ map (new_tile cfg) (filter (\<lambda>e. time e \<le> b) level)" using g by simp
  show ?case using Cons.IH [OF 1 2 3] g by simp
qed

lemma new_tile_start:
  "tile_y (new_tile cfg e) = - real_of_int main_tile_height \<and>
   tile_height (new_tile cfg e) = main_tile_height \<and>
   tile_speed (new_tile cfg e) = real_of_int (screen_height cfg) / hit_time cfg \<and>
   tile_column (new_tile cfg e) = column e \<and> tile_spawn_time (new_tile cfg e) = time e"
  by (simp add: new_tile_def Tile_init_def main_tile_speed_def)

subsection \<open>Milestones\<close>

lemma check_milestones_frame:
  "tiles (check_milestones cfg clock ms g) = tiles g \<and>
   score (check_milestones cfg clock ms g) = score g \<and>
   misses (check_milestones cfg clock ms g) = misses g \<and>
   current_tile_index (check_milestones cfg clock ms g) = current_tile_index g \<and>
   running (check_milestones cfg clock ms g) = running g"
  by (induction cfg clock ms g rule: check_milestones.induct) simp_all

lemma check_milestones_emits:
  "distinct ms \<Longrightarrow>
   check_milestones cfg clock ms g =
     g\<lparr>achieved_milestones := achieved_milestones g @
          filter (\<lambda>m. m \<le> score g \<and> m \<notin> set (achieved_milestones g)) ms,
       animations := animations g @
          map (\<lambda>m. MilestoneText m (screen_width cfg div 2) (screen_height cfg div 2)
                     (255, 215, 0) 255 2 (clock m))
            (filter (\<lambda>m. m \<le> score g \<and> m \<notin> set (achieved_milestones g)) ms)\<rparr>"
proof (induction cfg clock ms g rule: check_milestones.induct)
  case (1 cfg clock g)
  then show ?case by simp
next
  case (2 cfg clock milestone rest g)
  show ?case
  proof (cases "score g \<ge> milestone \<and> milestone \<notin> set (achieved_milestones g)")
    case True
    have "filter (\<lambda>m. m \<le> score g \<and> m \<notin> set (achieved_milestones g @ [milestone])) rest =
          filter (\<lambda>m. m \<le> score g \<and> m \<notin> set (achieved_milestones g)) rest"
      using "2.prems" by (intro filter_cong) auto
    then show ?thesis using 2 True by simp
  next
    case False
    then show ?thesis using 2 by auto
  qed
qed

lemma distinct_MILESTONES: "distinct MILESTONES"
  by (simp add: MILESTONES_def)

lemma milestone_history:
  "\<exists>emitted.
     achieved_milestones
       (foldl (\<lambda>g (sc, clock). check_milestones cfg clock MILESTONES (g\<lparr>score := sc\<rparr>)) g history) =
       achieved_milestones g @ map fst emitted \<and>
     animations
       (foldl (\<lambda>g (sc, clock). check_milestones cfg clock MILESTONES (g\<lparr>score := sc\<rparr>)) g history) =
       animations g @
       map (\<lambda>(m, start). MilestoneText m (screen_width cfg div 2) (screen_height cfg div 2)
                            (255, 215, 0) 255 2 start) emitted \<and>
     distinct (map fst emitted) \<and>
     set (map fst emitted) \<subseteq> set MILESTONES \<and>
     set (map fst emitted) \<inter> set (achieved_milestones g) = {}"
proof (induction history arbitrary: g)
  case Nil
  show ?case by (rule exI [of _ "[]"]) simp
next
  case (Cons p history)
  obtain sc clock where p: "p = (sc, clock)" by (cases p)
  let ?g0 = "g\<lparr>score := sc\<rparr>"
  let ?new = "filter (\<lambda>m. m \<le> sc \<and> m \<notin> set (achieved_milestones g)) MILESTONES"
  let ?g1 = "check_milestones cfg clock MILESTONES ?g0"
  have g1: "achieved_milestones ?g1 = achieved_milestones g @ ?new"
    "animations ?g1 = animations g @
       map (\<lambda>m. MilestoneText m (screen_width cfg div 2) (screen_height cfg div 2)
                  (255, 215, 0) 255 2 (clock m)) ?new"
    by (simp_all add: check_milestones_emits [OF distinct_MILESTONES])
  obtain em where em:
    "achieved_milestones
       (foldl (\<lambda>g (sc, clock). check_milestones cfg clock MILESTONES (g\<lparr>score := sc\<rparr>)) ?g1 history) =
       achieved_milestones ?g1 @ map fst em"
    "animations
       (foldl (\<lambda>g (sc, clock). check_milestones cfg clock MILESTONES (g\<lparr>score := sc\<rparr>)) ?g1 history) =
       animations ?g1 @
       map (\<lambda>(m, start). MilestoneText m (screen_width cfg div 2) (screen_height cfg div 2)
                            (255, 215, 0) 255 2 start) em"
    "distinct (map fst em)"
    "set (map fst em) \<subseteq> set MILESTONES"
    "set (map fst em) \<inter> set (achieved_milestones ?g1) = {}"
    using Cons.IH [of ?g1] by blast
  let ?em = "map (\<lambda>m. (m, clock m)) ?new @ em"
  have f: "map fst (map (\<lambda>m. (m, clock m)) ?new) = ?new" by (simp add: comp_def)
  have 1: "achieved_milestones
       (foldl (\<lambda>g (sc, clock). check_milestones cfg clock MILESTONES (g\<lparr>score := sc\<rparr>)) g (p # history)) =
       achieved_milestones g @ map fst ?em"
    using em(1) g1(1) p f by simp
  have 2: "animations
       (foldl (\<lambda>g (sc, clock). check_milestones cfg clock MILESTONES (g\<lparr>score := sc\<rparr>)) g (p # history)) =
       animations g @
       map (\<lambda>(m, start). MilestoneText m (screen_width cfg div 2) (screen_height cfg div 2)
                            (255, 215, 0) 255 2 start) ?em"
    using em(2) g1(2) p by (simp add: comp_def)
  have 3: "distinct (map fst ?em)"
    using em(3,5) g1(1) distinct_MILESTONES f by (auto simp: comp_def)
  have 4: "set (map fst ?em) \<subseteq> set MILESTONES" using em(4) by (auto simp: comp_def)
  have 5: "set (map fst ?em) \<inter> set (achieved_milestones g) = {}"
    using em(5) g1(1) by (auto simp: comp_def)
  show ?case
    by (rule exI [of _ ?em]) (use 1 2 3 4 5 in blast)
qed

subsection \<open>One frame\<close>

lemma frame_outcome:
  assumes ev: "handle_events cfg (events inp) g = Inr g1"
    and m: "misses g < max_misses"
    and g3: "g3 = update_tiles (real_of_int (clock_ms inp) / 1000)
                    (spawn_tiles cfg level (current_time inp) g1)"
    and n: "n = int (length (filter (\<lambda>t. tile_y t > real_of_int (screen_height cfg)) (tiles g3)))"
  shows "(max_misses \<le> misses g + n \<longrightarrow>
            (\<exists>g'. frame cfg level inp g =
                     Terminal MaxMisses (exit_after_misses (game_over_result inp)) g' \<and>
                   misses g' = max_misses)) \<and>
         (misses g + n < max_misses \<and> \<not> music_busy inp \<and>
            (\<forall>t\<in>set (tiles g3). tile_y t > real_of_int (screen_height cfg)) \<longrightarrow>
            (\<exists>g'. frame cfg level inp g =
                     Terminal SongEnded (exit_after_song (game_over_result inp)) g' \<and>
                   misses g' = misses g + n \<and> tiles g' = [])) \<and>
         (misses g + n < max_misses \<and>
            (music_busy inp \<or> (\<exists>t\<in>set (tiles g3). \<not> tile_y t > real_of_int (screen_height cfg))) \<longrightarrow>
            (\<exists>g'. frame cfg level inp g = Continue g' \<and> misses g' = misses g + n \<and>
                   running g' = running g1))"
proof -
  have m3: "misses g3 = misses g" "running g3 = running g1"
    using handle_events_misses [OF ev] g3 by (simp_all add: update_tiles_def spawn_tiles_run)
  obtain g4 over where d: "detect_missed cfg (tiles g3) g3 = (g4, over)"
    by (cases "detect_missed cfg (tiles g3) g3")
  have m3': "misses g3 < max_misses" using m3 m by simp
  note f = detect_missed_frame [OF m3' d]
  have fr: "frame cfg level inp g =
      (if over then Terminal MaxMisses (exit_after_misses (game_over_result inp)) g4
       else let g5 = check_milestones cfg (milestone_clock inp) MILESTONES g4;
                g6 = g5\<lparr>animations := update_animations (animations g5)
                           (real_of_int (clock_ms inp) / 1000) (animation_clock inp)\<rparr>
            in if \<not> music_busy inp \<and> tiles g6 = []
               then Terminal SongEnded (exit_after_song (game_over_result inp)) g6
               else Continue g6)"
    using ev d g3 by (simp add: frame_def Let_def)
  note c = check_milestones_frame [of cfg "milestone_clock inp" MILESTONES g4]
  show ?thesis
  proof (cases over)
    case True
    then have "frame cfg level inp g = Terminal MaxMisses (exit_after_misses (game_over_result inp)) g4"
      using fr by simp
    moreover have "misses g4 = max_misses" "max_misses \<le> misses g + n"
      using f True m3 n by simp_all
    ultimately show ?thesis by simp
  next
    case False
    have mm: "misses g4 = misses g + n" "misses g + n < max_misses"
      using f False m3 n by simp_all
    have t4: "tiles g4 = filter (\<lambda>t. \<not> tile_y t > real_of_int (screen_height cfg)) (tiles g3)"
      using f False by simp
    have r4: "running g4 = running g1" using f m3 by simp
    have e4: "tiles g4 = [] \<longleftrightarrow> (\<forall>t\<in>set (tiles g3). tile_y t > real_of_int (screen_height cfg))"
      unfolding t4 by (simp add: filter_empty_conv)
    show ?thesis
    proof (cases "\<not> music_busy inp \<and> tiles g4 = []")
      case True
      then have "frame cfg level inp g =
          Terminal SongEnded (exit_after_song (game_over_result inp))
            ((check_milestones cfg (milestone_clock inp) MILESTONES g4)
               \<lparr>animations := update_animations
                  (animations (check_milestones cfg (milestone_clock inp) MILESTONES g4))
                  (real_of_int (clock_ms inp) / 1000) (animation_clock inp)\<rparr>)"
        using fr False c by (simp add: Let_def)
      then show ?thesis using mm c True e4 by simp
    next
      case nt: False
      then have "frame cfg level inp g =
          Continue
            ((check_milestones cfg (milestone_clock inp) MILESTONES g4)
               \<lparr>animations := update_animations
                  (animations (check_milestones cfg (milestone_clock inp) MILESTONES g4))
                  (real_of_int (clock_ms inp) / 1000) (animation_clock inp)\<rparr>)"
        using fr False c by (simp add: Let_def)
      then show ?thesis using mm c nt e4 r4 by auto
    qed
  qed
qed

lemma frame_continue_misses:
  assumes "num_columns cfg \<noteq> 0" and "misses g < max_misses"
  shows "(\<forall>g'. frame cfg level inp g = Continue g' \<longrightarrow> misses g' < max_misses) \<and>
         (\<forall>x g'. frame cfg level inp g = Terminal MaxMisses x g' \<longrightarrow> misses g' = max_misses) \<and>
         (\<forall>x g'. frame cfg level inp g = Terminal SongEnded x g' \<longrightarrow>
                    misses g' < max_misses \<and> tiles g' = []) \<and>
         (\<forall>e. frame cfg level inp g \<noteq> Raised e)"
proof -
  obtain g1 where ev: "handle_events cfg (events inp) g = Inr g1"
    using handle_events_total [OF assms(1)] by blast
  define g3 where "g3 = update_tiles (real_of_int (clock_ms inp) / 1000)
                    (spawn_tiles cfg level (current_time inp) g1)"
  define n where "n = int (length (filter (\<lambda>t. tile_y t > real_of_int (screen_height cfg)) (tiles g3)))"
  note fo = frame_outcome [OF ev assms(2) g3_def n_def]
  let ?beyond = "\<forall>t\<in>set (tiles g3). tile_y t > real_of_int (screen_height cfg)"
  consider (over) "max_misses \<le> misses g + n"
    | (song) "misses g + n < max_misses" "\<not> music_busy inp" "?beyond"
    | (go) "misses g + n < max_misses" "music_busy inp \<or> \<not> ?beyond"
    by fastforce
  then show ?thesis
  proof cases
    case over
    then obtain g' where "frame cfg level inp g =
        Terminal MaxMisses (exit_after_misses (game_over_result inp)) g'" "misses g' = max_misses"
      using fo by blast
    then show ?thesis by simp
  next
    case song
    then obtain g' where "frame cfg level inp g =
        Terminal SongEnded (exit_after_song (game_over_result inp)) g'"
        "misses g' = misses g + n" "tiles g' = []"
      using fo by blast
    then show ?thesis using song(1) by simp
  next
    case go
    then obtain g' where "frame cfg level inp g = Continue g'" "misses g' = misses g + n"
      using fo by blast
    then show ?thesis using go(1) by simp
  qed
qed

lemma main_loop_misses:
  assumes "num_columns cfg \<noteq> 0"
  shows "misses g < max_misses \<Longrightarrow>
    (\<forall>g'. main_loop cfg level inputs g = StillRunning g' \<longrightarrow> misses g' < max_misses) \<and>
    (\<forall>g'. main_loop cfg level inputs g = Stopped g' \<longrightarrow> misses g' < max_misses) \<and>
    (\<forall>x g'. main_loop cfg level inputs g = GameOver MaxMisses x g' \<longrightarrow> misses g' = max_misses) \<and>
    (\<forall>x g'. main_loop cfg level inputs g = GameOver SongEnded x g' \<longrightarrow>
               misses g' < max_misses \<and> tiles g' = []) \<and>
    (\<forall>e. main_loop cfg level inputs g \<noteq> LoopRaised e)"
proof (induction inputs arbitrary: g)
  case Nil
  then show ?case by simp
next
  case (Cons inp rest)
  note fm = frame_continue_misses [OF assms Cons.prems, of level inp]
  show ?case
  proof (cases "running g")
    case False
    then show ?thesis using Cons.prems by simp
  next
    case True
    show ?thesis
    proof (cases "frame cfg level inp g")
      case (Continue g')
      then have m: "misses g' < max_misses" using fm by simp
      have eq: "main_loop cfg level (inp # rest) g = main_loop cfg level rest g'"
        using True Continue by simp
      show ?thesis unfolding eq using m by (rule Cons.IH)
    next
      case (Raised e)
      then show ?thesis using fm by simp
    next
      case (Terminal r x g')
      have eq: "main_loop cfg level (inp # rest) g = GameOver r x g'"
        using True Terminal by simp
      show ?thesis
      proof (cases r)
        case MaxMisses
        then have "misses g' = max_misses" using fm Terminal by simp
        then show ?thesis unfolding eq using MaxMisses by simp
      next
        case SongEnded
        then have "misses g' < max_misses \<and> tiles g' = []" using fm Terminal by simp
        then show ?thesis unfolding eq using SongEnded by simp
      qed
    qed
  qed
qed

lemma detect_missed_keeps:
  "detect_missed cfg ts g = (g', over) \<Longrightarrow>
   score g' = score g \<and> achieved_milestones g' = achieved_milestones g \<and>
   current_tile_index g' = current_tile_index g \<and> running g' = running g"
proof (induction ts arbitrary: g)
  case Nil
  then show ?case by auto
next
  case (Cons t rest)
  show ?case
  proof (cases "tile_y t > real_of_int (screen_height cfg)")
    case False
    then show ?thesis using Cons by simp
  next
    case True
    let ?g = "g\<lparr>tiles := remove1 t (tiles g), misses := misses g + 1,
                 animations := animations g @
                   [Circle (tile_x t + tile_width t div 2)
                      (tile_y t + real_of_int (tile_height t div 2)) 30 (255, 0, 0) 255]\<rparr>"
    show ?thesis
    proof (cases "misses g + 1 \<ge> max_misses")
      case over: True
      then have "g' = ?g" using Cons.prems True by (simp add: Let_def)
      then show ?thesis by simp
    next
      case False
      then have "detect_missed cfg rest ?g = (g', over)"
        using Cons.prems True by (simp add: Let_def)
      then show ?thesis using Cons.IH [of ?g] by simp
    qed
  qed
qed

lemma frame_milestones:
  assumes "frame cfg level inp g = Continue g'"
  shows "achieved_milestones g' =
           achieved_milestones
             (check_milestones cfg (milestone_clock inp) MILESTONES (g\<lparr>score := score g'\<rparr>))"
proof -
  obtain g1 where ev: "handle_events cfg (events inp) g = Inr g1"
    using assms by (cases "handle_events cfg (events inp) g") (simp_all add: frame_def)
  define g3 where "g3 = update_tiles (real_of_int (clock_ms inp) / 1000)
                    (spawn_tiles cfg level (current_time inp) g1)"
  obtain g4 over where d: "detect_missed cfg (tiles g3) g3 = (g4, over)"
    by (cases "detect_missed cfg (tiles g3) g3")
  have no: "\<not> over" using assms ev d by (auto simp: frame_def Let_def g3_def)
  define g5 where "g5 = check_milestones cfg (milestone_clock inp) MILESTONES g4"
  have g': "g' = g5\<lparr>animations := update_animations (animations g5)
                     (real_of_int (clock_ms inp) / 1000) (animation_clock inp)\<rparr>"
    using assms ev d no by (auto simp: frame_def Let_def g3_def g5_def split: if_splits)
  have a3: "achieved_milestones g3 = achieved_milestones g"
    using handle_events_misses [OF ev] by (simp add: g3_def update_tiles_def spawn_tiles_run)
  have a4: "achieved_milestones g4 = achieved_milestones g" using detect_missed_keeps [OF d] a3 by simp
  have s5: "score g' = score g4" using g' check_milestones_frame [of cfg "milestone_clock inp" MILESTONES g4]
    by (simp add: g5_def)
  have "achieved_milestones g5 =
        achieved_milestones (check_milestones cfg (milestone_clock inp) MILESTONES (g\<lparr>score := score g4\<rparr>))"
    using a4 by (simp add: g5_def check_milestones_emits [OF distinct_MILESTONES])
  then show ?thesis using g' s5 by simp
qed

lemma frame_spawn:
  assumes "frame cfg level inp g = Continue g'"
  shows "current_tile_index g' =
           current_tile_index (spawn_tiles cfg level (current_time inp) g)"
proof -
  obtain g1 where ev: "handle_events cfg (events inp) g = Inr g1"
    using assms by (cases "handle_events cfg (events inp) g") (simp_all add: frame_def)
  define g3 where "g3 = update_tiles (real_of_int (clock_ms inp) / 1000)
                    (spawn_tiles cfg level (current_time inp) g1)"
  obtain g4 over where d: "detect_missed cfg (tiles g3) g3 = (g4, over)"
    by (cases "detect_missed cfg (tiles g3) g3")
  have no: "\<not> over" using assms ev d by (auto simp: frame_def Let_def g3_def)
  define g5 where "g5 = check_milestones cfg (milestone_clock inp) MILESTONES g4"
  have g': "g' = g5\<lparr>animations := update_animations (animations g5)
                     (real_of_int (clock_ms inp) / 1000) (animation_clock inp)\<rparr>"
    using assms ev d no by (auto simp: frame_def Let_def g3_def g5_def split: if_splits)
  have i3: "current_tile_index g3 = current_tile_index (spawn_tiles cfg level (current_time inp) g)"
    using handle_events_misses [OF ev] by (simp add: g3_def update_tiles_def spawn_tiles_run)
  have "current_tile_index g5 = current_tile_index g3"
    using detect_missed_keeps [OF d] check_milestones_frame [of cfg "milestone_clock inp" MILESTONES g4]
    by (simp add: g5_def)
  then show ?thesis using g' i3 by simp
qed

subsection \<open>Leaving the loop\<close>

text \<open>
  Claim C3: from a state with fewer than \<open>max_misses = 5\<close> misses, a frame shows the
  game-over screen for too many misses exactly when the tiles below the screen after
  the events, the spawning and the update bring the miss count to \<open>max_misses\<close> or more,
  and it stops counting at the miss that reaches \<open>max_misses\<close>; it shows the screen for
  the end of the song exactly when that is not so, the music is no longer playing and no
  tile remains; otherwise the loop goes on, still below \<open>max_misses\<close>.  The score and the
  key presses take no part in these conditions.  The same holds of the whole loop on any
  sequence of frame inputs.  The witness lets five tiles fall through in five frames: the
  loop is still running after the fourth and ends for too many misses in the fifth.
\<close>

theorem session_termination:
  assumes "num_columns cfg \<noteq> 0" and "misses g < max_misses"
  shows "max_misses = 5 \<and>
    (\<exists>g1. handle_events cfg (events inp) g = Inr g1 \<and>
      (let g3 = update_tiles (real_of_int (clock_ms inp) / 1000)
                  (spawn_tiles cfg level (current_time inp) g1);
           n = int (length (filter (\<lambda>t. tile_y t > real_of_int (screen_height cfg)) (tiles g3)))
       in ((\<exists>x g'. frame cfg level inp g = Terminal MaxMisses x g') \<longleftrightarrow>
             max_misses \<le> misses g + n) \<and>
          ((\<exists>x g'. frame cfg level inp g = Terminal SongEnded x g') \<longleftrightarrow>
             misses g + n < max_misses \<and> \<not> music_busy inp \<and>
             (\<forall>t\<in>set (tiles g3). tile_y t > real_of_int (screen_height cfg))) \<and>
          ((\<exists>g'. frame cfg level inp g = Continue g') \<longleftrightarrow>
             misses g + n < max_misses \<and>
             (music_busy inp \<or> (\<exists>t\<in>set (tiles g3). \<not> tile_y t > real_of_int (screen_height cfg)))))) \<and>
    (\<forall>x g'. frame cfg level inp g = Terminal MaxMisses x g' \<longrightarrow> misses g' = max_misses) \<and>
    (\<forall>x g'. frame cfg level inp g = Terminal SongEnded x g' \<longrightarrow>
               misses g' < max_misses \<and> tiles g' = []) \<and>
    (\<forall>g'. frame cfg level inp g = Continue g' \<longrightarrow> misses g' < max_misses) \<and>
    (\<forall>e. frame cfg level inp g \<noteq> Raised e) \<and>
    (\<forall>x g'. main_loop cfg level inputs g = GameOver MaxMisses x g' \<longrightarrow> misses g' = max_misses) \<and>
    (\<forall>x g'. main_loop cfg level inputs g = GameOver SongEnded x g' \<longrightarrow>
               misses g' < max_misses \<and> tiles g' = []) \<and>
    (\<forall>g'. main_loop cfg level inputs g = StillRunning g' \<longrightarrow> misses g' < max_misses)"
proof -
  obtain g1 where ev: "handle_events cfg (events inp) g = Inr g1"
    using handle_events_total [OF assms(1)] by blast
  define g3 where "g3 = update_tiles (real_of_int (clock_ms inp) / 1000)
                    (spawn_tiles cfg level (current_time inp) g1)"
  define n where "n = int (length (filter (\<lambda>t. tile_y t > real_of_int (screen_height cfg)) (tiles g3)))"
  note fo = frame_outcome [OF ev assms(2) g3_def n_def]
  let ?beyond = "\<forall>t\<in>set (tiles g3). tile_y t > real_of_int (screen_height cfg)"
  have iffs: "((\<exists>x g'. frame cfg level inp g = Terminal MaxMisses x g') \<longleftrightarrow>
             max_misses \<le> misses g + n) \<and>
          ((\<exists>x g'. frame cfg level inp g = Terminal SongEnded x g') \<longleftrightarrow>
             misses g + n < max_misses \<and> \<not> music_busy inp \<and> ?beyond) \<and>
          ((\<exists>g'. frame cfg level inp g = Continue g') \<longleftrightarrow>
             misses g + n < max_misses \<and> (music_busy inp \<or> \<not> ?beyond))"
  proof -
    consider (over) "max_misses \<le> misses g + n"
      | (song) "misses g + n < max_misses" "\<not> music_busy inp" "?beyond"
      | (go) "misses g + n < max_misses" "music_busy inp \<or> \<not> ?beyond"
      by fastforce
    then show ?thesis
    proof cases
      case over
      then obtain g' where "frame cfg level inp g =
          Terminal MaxMisses (exit_after_misses (game_over_result inp)) g'"
        using fo by blast
      then show ?thesis using over by simp
    next
      case song
      then obtain g' where "frame cfg level inp g =
          Terminal SongEnded (exit_after_song (game_over_result inp)) g'"
        using fo by blast
      then show ?thesis using song by simp
    next
      case go
      then obtain g' where "frame cfg level inp g = Continue g'"
        using fo by blast
      then show ?thesis using go by auto
    qed
  qed
  have a: "\<exists>g1. handle_events cfg (events inp) g = Inr g1 \<and>
      (let g3 = update_tiles (real_of_int (clock_ms inp) / 1000)
                  (spawn_tiles cfg level (current_time inp) g1);
           n = int (length (filter (\<lambda>t. tile_y t > real_of_int (screen_height cfg)) (tiles g3)))
       in ((\<exists>x g'. frame cfg level inp g = Terminal MaxMisses x g') \<longleftrightarrow>
             max_misses \<le> misses g + n) \<and>
          ((\<exists>x g'. frame cfg level inp g = Terminal SongEnded x g') \<longleftrightarrow>
             misses g + n < max_misses \<and> \<not> music_busy inp \<and>
             (\<forall>t\<in>set (tiles g3). tile_y t > real_of_int (screen_height cfg))) \<and>
          ((\<exists>g'. frame cfg level inp g = Continue g') \<longleftrightarrow>
             misses g + n < max_misses \<and>
             (music_busy inp \<or> (\<exists>t\<in>set (tiles g3). \<not> tile_y t > real_of_int (screen_height cfg)))))"
    using ev iffs unfolding g3_def n_def Let_def by blast
  note b = frame_continue_misses [OF assms, of level inp]
  note c = main_loop_misses [OF assms, of level inputs]
  have d: "max_misses = 5" by (simp add: max_misses_def)
  show ?thesis
    using a b c d by blast
qed


lemma four_misses:
  "main_loop default_settings falling_level
     [quiet_frame 0 3000, quiet_frame 1 3000, quiet_frame 2 3000, quiet_frame 3 3000]
     (sample_game []) =
   StillRunning ((sample_game [])\<lparr>current_tile_index := 4, misses := 4\<rparr>)"
  by code_simp

lemma five_misses:
  "main_loop default_settings falling_level
     [quiet_frame 0 3000, quiet_frame 1 3000, quiet_frame 2 3000, quiet_frame 3 3000,
      quiet_frame 4 3000]
     (sample_game []) =
   GameOver MaxMisses ReturnRestart
     ((sample_game [])
        \<lparr>current_tile_index := 5, misses := 5,
         animations := [Circle 100 850 30 (255, 0, 0) 255]\<rparr>)"
  by code_simp

theorem session_termination_witness:
  "num_columns default_settings \<noteq> 0 \<and> misses (sample_game []) < max_misses \<and>
   (\<exists>g'. main_loop default_settings falling_level
            [quiet_frame 0 3000, quiet_frame 1 3000, quiet_frame 2 3000, quiet_frame 3 3000]
            (sample_game []) = StillRunning g' \<and> misses g' = 4 \<and> misses g' < max_misses) \<and>
   (\<exists>x g'. main_loop default_settings falling_level
            [quiet_frame 0 3000, quiet_frame 1 3000, quiet_frame 2 3000, quiet_frame 3 3000,
             quiet_frame 4 3000]
            (sample_game []) = GameOver MaxMisses x g' \<and> misses g' = 5)"
proof -
  have n: "num_columns default_settings \<noteq> 0" by (simp add: default_settings_def)
  have m: "misses (sample_game []) < max_misses" by (simp add: sample_game_def max_misses_def)
  note four = session_termination [OF n m, of _ falling_level
      "[quiet_frame 0 3000, quiet_frame 1 3000, quiet_frame 2 3000, quiet_frame 3 3000]"]
  note five = session_termination [OF n m, of _ falling_level
      "[quiet_frame 0 3000, quiet_frame 1 3000, quiet_frame 2 3000, quiet_frame 3 3000,
        quiet_frame 4 3000]"]
  have a: "misses ((sample_game [])\<lparr>current_tile_index := 4, misses := 4\<rparr>) < max_misses"
    using four four_misses by blast
  have b: "misses ((sample_game [])
        \<lparr>current_tile_index := 5, misses := 5,
         animations := [Circle 100 850 30 (255, 0, 0) 255]\<rparr>) = max_misses"
    using five five_misses by blast
  have c: "max_misses = 5" using five by blast
  show ?thesis using n m a b c four_misses five_misses by simp
qed

subsection \<open>Milestones over a session\<close>

text \<open>
  Claim C9: the pass over \<open>MILESTONES\<close> appends to \<open>achieved_milestones\<close>, and emits a
  milestone animation for, exactly the thresholds that are at most the score and not yet
  achieved.  So a threshold already achieved stays achieved and is not emitted again,
  whatever the score is.  A frame changes \<open>achieved_milestones\<close> through this pass only, at
  the score the frame ends with.  Over any history of scores, one per frame, the
  thresholds emitted are pairwise distinct: each threshold is emitted at most once.
\<close>

theorem milestone_once:
  "check_milestones cfg clock MILESTONES g =
     g\<lparr>achieved_milestones := achieved_milestones g @
          filter (\<lambda>m. m \<le> score g \<and> m \<notin> set (achieved_milestones g)) MILESTONES,
       animations := animations g @
          map (\<lambda>m. MilestoneText m (screen_width cfg div 2) (screen_height cfg div 2)
                     (255, 215, 0) 255 2 (clock m))
            (filter (\<lambda>m. m \<le> score g \<and> m \<notin> set (achieved_milestones g)) MILESTONES)\<rparr> \<and>
   (m \<in> set (achieved_milestones g) \<longrightarrow>
      m \<in> set (achieved_milestones (check_milestones cfg clock MILESTONES g)) \<and>
      (\<forall>a \<in> set (drop (length (animations g))
                    (animations (check_milestones cfg clock MILESTONES g))).
         \<forall>ax ay col alpha duration start. a \<noteq> MilestoneText m ax ay col alpha duration start)) \<and>
   (\<forall>g'. frame cfg level inp g = Continue g' \<longrightarrow>
      achieved_milestones g' =
        achieved_milestones
          (check_milestones cfg (milestone_clock inp) MILESTONES (g\<lparr>score := score g'\<rparr>))) \<and>
   (\<exists>emitted.
      achieved_milestones
        (foldl (\<lambda>g (sc, clock). check_milestones cfg clock MILESTONES (g\<lparr>score := sc\<rparr>)) g history) =
        achieved_milestones g @ map fst emitted \<and>
      animations
        (foldl (\<lambda>g (sc, clock). check_milestones cfg clock MILESTONES (g\<lparr>score := sc\<rparr>)) g history) =
        animations g @
        map (\<lambda>(m, start). MilestoneText m (screen_width cfg div 2) (screen_height cfg div 2)
                             (255, 215, 0) 255 2 start) emitted \<and>
      distinct (map fst emitted) \<and>
      set (map fst emitted) \<subseteq> set MILESTONES \<and>
      set (map fst emitted) \<inter> set (achieved_milestones g) = {})"
proof -
  let ?new = "filter (\<lambda>m. m \<le> score g \<and> m \<notin> set (achieved_milestones g)) MILESTONES"
  have e: "check_milestones cfg clock MILESTONES g =
     g\<lparr>achieved_milestones := achieved_milestones g @ ?new,
       animations := animations g @
          map (\<lambda>m. MilestoneText m (screen_width cfg div 2) (screen_height cfg div 2)
                     (255, 215, 0) 255 2 (clock m)) ?new\<rparr>"
    using distinct_MILESTONES by (rule check_milestones_emits)
  have n: "m \<in> set (achieved_milestones (check_milestones cfg clock MILESTONES g)) \<and>
      (\<forall>a \<in> set (drop (length (animations g))
                    (animations (check_milestones cfg clock MILESTONES g))).
         \<forall>ax ay col alpha duration start. a \<noteq> MilestoneText m ax ay col alpha duration start)"
    if "m \<in> set (achieved_milestones g)"
    unfolding e using that by auto
  have f: "\<forall>g'. frame cfg level inp g = Continue g' \<longrightarrow>
      achieved_milestones g' =
        achieved_milestones
          (check_milestones cfg (milestone_clock inp) MILESTONES (g\<lparr>score := score g'\<rparr>))"
    using frame_milestones by blast
  show ?thesis
    using e n f milestone_history [of cfg g history] by blast
qed

lemma up_down_up:
  "foldl (\<lambda>g (sc, clock). check_milestones default_settings clock MILESTONES (g\<lparr>score := sc\<rparr>))
     (sample_game []) [(100, \<lambda>m. 7), (99, \<lambda>m. 8), (100, \<lambda>m. 9)] =
   (sample_game [])
     \<lparr>score := 100, achieved_milestones := [100],
      animations := [MilestoneText 100 400 300 (255, 215, 0) 255 2 7]\<rparr>"
  by code_simp

lemma first_hundred:
  "check_milestones default_settings (\<lambda>m. 7) MILESTONES ((sample_game [])\<lparr>score := 100\<rparr>) =
     (sample_game [])
       \<lparr>score := 100, achieved_milestones := [100],
        animations := [MilestoneText 100 400 300 (255, 215, 0) 255 2 7]\<rparr>"
  by code_simp

theorem milestone_once_witness:
  "check_milestones default_settings (\<lambda>m. 7) MILESTONES ((sample_game [])\<lparr>score := 100\<rparr>) =
     (sample_game [])
       \<lparr>score := 100, achieved_milestones := [100],
        animations := [MilestoneText 100 400 300 (255, 215, 0) 255 2 7]\<rparr> \<and>
   100 \<in> set (achieved_milestones
      ((sample_game [])
         \<lparr>score := 100, achieved_milestones := [100],
          animations := [MilestoneText 100 400 300 (255, 215, 0) 255 2 7]\<rparr>)) \<and>
   check_milestones default_settings (\<lambda>m. 9) MILESTONES
     ((sample_game [])
        \<lparr>score := 100, achieved_milestones := [100],
         animations := [MilestoneText 100 400 300 (255, 215, 0) 255 2 7]\<rparr>) =
     (sample_game [])
       \<lparr>score := 100, achieved_milestones := [100],
        animations := [MilestoneText 100 400 300 (255, 215, 0) 255 2 7]\<rparr> \<and>
   foldl (\<lambda>g (sc, clock). check_milestones default_settings clock MILESTONES (g\<lparr>score := sc\<rparr>))
     (sample_game []) [(100, \<lambda>m. 7), (99, \<lambda>m. 8), (100, \<lambda>m. 9)] =
   (sample_game [])
     \<lparr>score := 100, achieved_milestones := [100],
      animations := [MilestoneText 100 400 300 (255, 215, 0) 255 2 7]\<rparr>"
proof -
  let ?g = "(sample_game [])
        \<lparr>score := 100, achieved_milestones := [100],
         animations := [MilestoneText 100 400 300 (255, 215, 0) 255 2 7]\<rparr>"
  have a: "100 \<in> set (achieved_milestones ?g)" by simp
  have f: "filter (\<lambda>m. m \<le> score ?g \<and> m \<notin> set (achieved_milestones ?g)) MILESTONES = []"
    by (simp add: MILESTONES_def)
  have b: "check_milestones default_settings (\<lambda>m. 9) MILESTONES ?g = ?g"
    using milestone_once [of default_settings "\<lambda>m. 9" ?g 100, THEN conjunct1] unfolding f
    by simp
  show ?thesis
    using a b first_hundred up_down_up by simp
qed

subsection \<open>Spawning over a session\<close>

text \<open>
  Claim C7, for a level in ascending order of time (as generated from the beat times):
  one pass of the spawning loop creates a tile for exactly the entries not yet spawned
  whose time is at most the elapsed time, in the order of the level, and moves the index
  past them.  Over successive passes with non-decreasing elapsed times, starting from
  index 0, the tiles created are those of the entries whose time is at most the last
  elapsed time, each entry once, in the order of the level.  A frame of the game loop
  moves the index as its spawning pass does.  A new tile starts at
  \<open>-tile_height\<close> with speed \<open>screen_height / hit_time\<close>.
\<close>

theorem spawn_schedule:
  assumes "sorted (map time level)"
  shows "spawn_tiles cfg level now g =
           g\<lparr>tiles := tiles g @
                map (new_tile cfg)
                  (filter (\<lambda>e. time e \<le> now) (drop (current_tile_index g) level)),
             current_tile_index := current_tile_index g +
                length (filter (\<lambda>e. time e \<le> now) (drop (current_tile_index g) level))\<rparr> \<and>
         (sorted (now # nows) \<and> current_tile_index g = 0 \<longrightarrow>
            foldl (\<lambda>g t. spawn_tiles cfg level t g) g (now # nows) =
              g\<lparr>tiles := tiles g @
                   map (new_tile cfg) (filter (\<lambda>e. time e \<le> last (now # nows)) level),
                current_tile_index :=
                   length (filter (\<lambda>e. time e \<le> last (now # nows)) level)\<rparr>) \<and>
         (\<forall>g'. frame cfg level inp g = Continue g' \<longrightarrow>
            current_tile_index g' =
              current_tile_index (spawn_tiles cfg level (current_time inp) g)) \<and>
         tile_y (new_tile cfg e) = - real_of_int (tile_height (new_tile cfg e)) \<and>
         tile_height (new_tile cfg e) = main_tile_height \<and>
         tile_speed (new_tile cfg e) = real_of_int (screen_height cfg) / hit_time cfg"
proof -
  have b: "foldl (\<lambda>g t. spawn_tiles cfg level t g) g (now # nows) =
              g\<lparr>tiles := tiles g @
                   map (new_tile cfg) (filter (\<lambda>e. time e \<le> last (now # nows)) level),
                current_tile_index :=
                   length (filter (\<lambda>e. time e \<le> last (now # nows)) level)\<rparr>"
    if s: "sorted (now # nows)" and z: "current_tile_index g = 0"
  proof -
    let ?g = "spawn_tiles cfg level now g"
    have g: "?g = g\<lparr>tiles := tiles g @ map (new_tile cfg) (filter (\<lambda>e. time e \<le> now) level),
                     current_tile_index := length (filter (\<lambda>e. time e \<le> now) level)\<rparr>"
      using z by (simp add: spawn_tiles_sorted [OF assms])
    have 2: "current_tile_index ?g = length (filter (\<lambda>e. time e \<le> now) level)" using g by simp
    have 3: "tiles ?g = tiles g @ map (new_tile cfg) (filter (\<lambda>e. time e \<le> now) level)"
      using g by simp
    show ?thesis using spawn_ticks [OF assms s 2 3] g by simp
  qed
  have c: "\<forall>g'. frame cfg level inp g = Continue g' \<longrightarrow>
            current_tile_index g' =
              current_tile_index (spawn_tiles cfg level (current_time inp) g)"
    using frame_spawn by blast
  show ?thesis
    using spawn_tiles_sorted [OF assms, of cfg now g] b c new_tile_start [of cfg e] by simp
qed

theorem spawn_schedule_witness:
  "sorted (map time sample_level) \<and> sorted [1/4, 1/2, 6/5 :: real] \<and>
   current_tile_index (sample_game []) = 0 \<and>
   spawn_tiles default_settings sample_level (1/4) (sample_game []) = sample_game [] \<and>
   foldl (\<lambda>g t. spawn_tiles default_settings sample_level t g) (sample_game []) [1/4, 1/2, 6/5] =
     (sample_game [])
       \<lparr>tiles := [new_tile default_settings \<lparr>time = 1/2, column = 0\<rparr>,
                  new_tile default_settings \<lparr>time = 1, column = 1\<rparr>],
        current_tile_index := 2\<rparr> \<and>
   tile_y (new_tile default_settings \<lparr>time = 1/2, column = 0\<rparr>) = - 100 \<and>
   tile_speed (new_tile default_settings \<lparr>time = 1/2, column = 0\<rparr>) = 300"
proof -
  have s: "sorted (map time sample_level)" by (simp add: sample_level_def)
  have t: "sorted [1/4, 1/2, 6/5 :: real]" by simp
  have z: "current_tile_index (sample_game []) = 0" by (simp add: sample_game_def)
  note sp = spawn_schedule [OF s, of default_settings "1/4" "sample_game []" "[1/2, 6/5]" _
        "\<lparr>time = 1/2, column = 0\<rparr>"]
  have f1: "filter (\<lambda>e. time e \<le> 1/4) (drop 0 sample_level) = []"
    by (simp add: sample_level_def)
  have f2: "filter (\<lambda>e. time e \<le> last [1/4, 1/2, 6/5]) sample_level =
              [\<lparr>time = 1/2, column = 0\<rparr>, \<lparr>time = 1, column = 1\<rparr>]"
    by (simp add: sample_level_def)
  have a: "spawn_tiles default_settings sample_level (1/4) (sample_game []) = sample_game []"
    using sp [THEN conjunct1] unfolding z f1 by (simp add: sample_game_def)
  have tz: "sorted (1/4 # [1/2, 6/5 :: real]) \<and> current_tile_index (sample_game []) = 0"
    using t z by simp
  have b: "foldl (\<lambda>g t. spawn_tiles default_settings sample_level t g) (sample_game [])
             [1/4, 1/2, 6/5] =
           (sample_game [])
             \<lparr>tiles := [new_tile default_settings \<lparr>time = 1/2, column = 0\<rparr>,
                        new_tile default_settings \<lparr>time = 1, column = 1\<rparr>],
              current_tile_index := 2\<rparr>"
    using sp [THEN conjunct2, THEN conjunct1, THEN mp, OF tz] unfolding f2
    by (simp add: sample_game_def)
  have c: "tile_y (new_tile default_settings \<lparr>time = 1/2, column = 0\<rparr>) = - 100"
    "tile_speed (new_tile default_settings \<lparr>time = 1/2, column = 0\<rparr>) = 300"
    using sp [THEN conjunct2, THEN conjunct2, THEN conjunct2]
    by (simp_all add: main_tile_height_def default_settings_def)
  show ?thesis using s t z a b c by simp
qed

subsection \<open>Moving the tiles\<close>

text \<open>
  A frame whose clock reports \<open>-500\<close> milliseconds moves a tile at height 450 with speed
  300 up to height 300: the delta time is not clamped.
\<close>

theorem negative_delta_counterexample:
  "frame default_settings [] (quiet_frame 0 (- 500)) (sample_game [sample_tile 0 450]) =
     Continue (sample_game [sample_tile 0 300]) \<and>
   tile_y (Tile_update (sample_tile 0 450) (- 1/2)) = 300"
  by code_simp

text \<open>
  Claim C8, as the code has it: the update adds \<open>tile_speed * delta_time\<close> to the
  height of every tile, for any \<open>delta_time\<close>, and raises nothing.  A zero \<open>delta_time\<close>
  leaves the tiles as they are, a non-negative one never moves a tile of non-negative
  speed upward, and a negative one moves every tile of positive speed upward.
\<close>

theorem update_without_clamp:
  "tiles (update_tiles 0 g) = tiles g \<and>
   length (tiles (update_tiles delta_time g)) = length (tiles g) \<and>
   (\<forall>i<length (tiles g).
      tile_y (tiles (update_tiles delta_time g) ! i) =
        tile_y (tiles g ! i) + tile_speed (tiles g ! i) * delta_time \<and>
      (0 \<le> delta_time \<and> 0 \<le> tile_speed (tiles g ! i) \<longrightarrow>
         tile_y (tiles g ! i) \<le> tile_y (tiles (update_tiles delta_time g) ! i)) \<and>
      (delta_time < 0 \<and> 0 < tile_speed (tiles g ! i) \<longrightarrow>
         tile_y (tiles (update_tiles delta_time g) ! i) < tile_y (tiles g ! i)))"
proof -
  have z: "tiles (update_tiles 0 g) = tiles g"
    by (simp add: update_tiles_def Tile_update_def map_idI)
  have y: "tile_y (tiles (update_tiles delta_time g) ! i) =
        tile_y (tiles g ! i) + tile_speed (tiles g ! i) * delta_time"
    if "i < length (tiles g)" for i
    using that by (simp add: update_tiles_def Tile_update_def)
  have up: "tile_y (tiles g ! i) \<le> tile_y (tiles (update_tiles delta_time g) ! i)"
    if "i < length (tiles g)" "0 \<le> delta_time" "0 \<le> tile_speed (tiles g ! i)" for i
    using that y [OF that(1)] by simp
  have down: "tile_y (tiles (update_tiles delta_time g) ! i) < tile_y (tiles g ! i)"
    if "i < length (tiles g)" "delta_time < 0" "0 < tile_speed (tiles g ! i)" for i
    using that y [OF that(1)] by (simp add: mult_pos_neg)
  have l: "length (tiles (update_tiles delta_time g)) = length (tiles g)"
    by (simp add: update_tiles_def)
  show ?thesis using z y up down l by blast
qed

theorem update_without_clamp_witness:
  "(0::nat) < length (tiles (sample_game [sample_tile 0 450])) \<and> (- 1/2 :: real) < 0 \<and>
   0 < tile_speed (tiles (sample_game [sample_tile 0 450]) ! 0) \<and>
   tile_y (tiles (update_tiles (- 1/2) (sample_game [sample_tile 0 450])) ! 0) = 300 \<and>
   tile_y (tiles (update_tiles (- 1/2) (sample_game [sample_tile 0 450])) ! 0) <
     tile_y (tiles (sample_game [sample_tile 0 450]) ! 0) \<and>
   (0::real) \<le> 1/2 \<and>
   tile_y (tiles (sample_game [sample_tile 0 450]) ! 0) \<le>
     tile_y (tiles (update_tiles (1/2) (sample_game [sample_tile 0 450])) ! 0)"
proof -
  let ?g = "sample_game [sample_tile 0 450]"
  have l: "0 < length (tiles ?g)" by (simp add: sample_game_def)
  have s: "0 < tile_speed (tiles ?g ! 0)" "tile_speed (tiles ?g ! 0) = 300"
    "tile_y (tiles ?g ! 0) = 450"
    by (simp_all add: sample_game_def sample_tile_def Tile_init_def)
  have n: "(- 1/2 :: real) < 0" "(0::real) \<le> 1/2" by simp_all
  note neg = update_without_clamp [of ?g "- 1/2", THEN conjunct2, THEN conjunct2, rule_format, OF l]
  note pos = update_without_clamp [of ?g "1/2", THEN conjunct2, THEN conjunct2, rule_format, OF l]
  have a: "tile_y (tiles (update_tiles (- 1/2) ?g) ! 0) = 300"
    using neg [THEN conjunct1] s(2,3) by simp
  have b: "tile_y (tiles (update_tiles (- 1/2) ?g) ! 0) < tile_y (tiles ?g ! 0)"
    using neg [THEN conjunct2, THEN conjunct2] n(1) s(1) by blast
  have c: "tile_y (tiles ?g ! 0) \<le> tile_y (tiles (update_tiles (1/2) ?g) ! 0)"
    using pos [THEN conjunct2, THEN conjunct1] n(2) s(1) by simp
  show ?thesis using l n s(1) a b c by blast
qed


end
